theory Spec2Isabelle
  imports Main "HOL-Library.Char_ord" "HOL-Library.List_Lexorder" "HOL-Library.AList"
    "HOL-Library.Multiset"
begin

section \<open>av-organizer: a model of \<open>src/index.js\<close>\<close>

text \<open>
  The program scans the working directory, extracts one descriptor per file, groups the
  descriptors by the part of the file name before the first dot, gives each group one
  type and one date, prints a table and, with the command \<open>move\<close>, creates the
  directories and renames the files. The definitions below follow \<open>src/index.js\<close>
  function by function. The collaborators (file system, MIME table, EXIF reader, local
  time zone) are fields of the record \<open>env\<close>; an exception or a rejected promise is
  the \<open>Inl\<close> of a sum. The progress bar and the messages on the console, which no
  other value depends on, are left out.
\<close>

subsection \<open>JavaScript strings and arrays\<close>

text \<open>
  \<open>s.split(c)\<close> for a one-character separator: the segments between the separators,
  never an empty array (\<open>''.split('.')\<close> is \<open>['']\<close>).
\<close>

fun js_split :: "char \<Rightarrow> string \<Rightarrow> string list" where
  "js_split c [] = [[]]"
| "js_split c (x # xs) =
     (if x = c then [] # js_split c xs
      else (case js_split c xs of [] \<Rightarrow> [[x]] | seg # segs \<Rightarrow> (x # seg) # segs))"

text \<open>\<open>a.shift()\<close> and \<open>a.pop()\<close>: the element removed (\<open>undefined\<close> is \<open>None\<close>)
  and the array left.\<close>

definition js_shift :: "'a list \<Rightarrow> 'a option \<times> 'a list" where
  "js_shift xs = (case xs of [] \<Rightarrow> (None, []) | x # r \<Rightarrow> (Some x, r))"

definition js_pop :: "'a list \<Rightarrow> 'a option \<times> 'a list" where
  "js_pop xs = (if xs = [] then (None, []) else (Some (last xs), butlast xs))"

subsection \<open>Paths (POSIX)\<close>

text \<open>
  \<open>path.basename\<close>: trailing slashes are dropped, the result is what follows the last
  remaining slash. \<open>path.join(a, b)\<close> is modelled for the arguments the program gives
  it: \<open>a\<close> is the working directory or a directory below it and \<open>b\<close> is one name
  (no slash, not \<open>.\<close> or \<open>..\<close>), where normalisation changes nothing but a doubled
  slash after a directory that ends in one.
\<close>

definition path_basename :: "string \<Rightarrow> string" where
  "path_basename p =
     rev (takeWhile (\<lambda>c. c \<noteq> CHR ''/'') (dropWhile (\<lambda>c. c = CHR ''/'') (rev p)))"

definition path_join :: "string \<Rightarrow> string \<Rightarrow> string" where
  "path_join a b = (if a \<noteq> [] \<and> last a = CHR ''/'' then a @ b else a @ ''/'' @ b)"

subsection \<open>Dates\<close>

text \<open>
  A \<open>Date\<close> is its time value, the milliseconds since 1970-01-01T00:00:00Z. The
  calendar functions are those of ECMAScript (\<open>Day\<close>, \<open>WeekDay\<close>, \<open>YearFromTime\<close>,
  \<open>MonthFromTime\<close>, \<open>DateFromTime\<close>), computed by the usual civil-from-days
  arithmetic on the proleptic Gregorian calendar.
\<close>

definition msPerDay :: int where
  "msPerDay = 86400000"

definition Day :: "int \<Rightarrow> int" where
  "Day t = t div msPerDay"

definition WeekDay :: "int \<Rightarrow> int" where
  "WeekDay t = (Day t + 4) mod 7"

definition civil :: "int \<Rightarrow> int \<times> int \<times> int" where
  "civil days =
     (let z = days + 719468;
          era = z div 146097;
          doe = z mod 146097;
          yoe = (doe - doe div 1460 + doe div 36524 - doe div 146096) div 365;
          doy = doe - (365 * yoe + yoe div 4 - yoe div 100);
          mp = (5 * doy + 2) div 153;
          d = doy - (153 * mp + 2) div 5 + 1;
          m = (if mp < 10 then mp + 3 else mp - 9);
          y = yoe + era * 400
      in (if m \<le> 2 then y + 1 else y, m, d))"

definition YearFromTime :: "int \<Rightarrow> int" where
  "YearFromTime t = fst (civil (Day t))"

definition MonthFromTime :: "int \<Rightarrow> int" where
  "MonthFromTime t = fst (snd (civil (Day t))) - 1"

definition DateFromTime :: "int \<Rightarrow> int" where
  "DateFromTime t = snd (snd (civil (Day t)))"

definition HourFromTime :: "int \<Rightarrow> int" where
  "HourFromTime t = (t div 3600000) mod 24"

definition MinFromTime :: "int \<Rightarrow> int" where
  "MinFromTime t = (t div 60000) mod 60"

definition SecFromTime :: "int \<Rightarrow> int" where
  "SecFromTime t = (t div 1000) mod 60"

definition msFromTime :: "int \<Rightarrow> int" where
  "msFromTime t = t mod 1000"

definition digit :: "int \<Rightarrow> char" where
  "digit n = ''0123456789'' ! nat (n mod 10)"

fun digits :: "nat \<Rightarrow> int \<Rightarrow> string" where
  "digits 0 n = []"
| "digits (Suc k) n = digits k (n div 10) @ [digit n]"

text \<open>The decimal numeral of \<open>n \<ge> 0\<close>, padded with zeros to at least \<open>w\<close> digits.
  No number printed below has more than eight digits.\<close>

definition pad :: "nat \<Rightarrow> int \<Rightarrow> string" where
  "pad w n =
     (let s = dropWhile (\<lambda>c. c = CHR ''0'') (digits 8 n)
      in replicate (w - length s) (CHR ''0'') @ s)"

definition weekdayNames :: "string list" where
  "weekdayNames = [''Sun'', ''Mon'', ''Tue'', ''Wed'', ''Thu'', ''Fri'', ''Sat'']"

definition monthNames :: "string list" where
  "monthNames = [''Jan'', ''Feb'', ''Mar'', ''Apr'', ''May'', ''Jun'',
                 ''Jul'', ''Aug'', ''Sep'', ''Oct'', ''Nov'', ''Dec'']"

text \<open>
  \<open>Date.prototype.toISOString\<close>: \<open>YYYY-MM-DDTHH:mm:ss.sssZ\<close> in UTC; a year outside
  0..9999 is written with a sign and six digits.
\<close>

definition isoYear :: "int \<Rightarrow> string" where
  "isoYear y =
     (if 0 \<le> y \<and> y \<le> 9999 then pad 4 y
      else (if y < 0 then ''-'' else ''+'') @ pad 6 (abs y))"

definition toISOString :: "int \<Rightarrow> string" where
  "toISOString t =
     isoYear (YearFromTime t) @ ''-'' @ pad 2 (MonthFromTime t + 1) @ ''-'' @
     pad 2 (DateFromTime t) @ ''T'' @ pad 2 (HourFromTime t) @ '':'' @
     pad 2 (MinFromTime t) @ '':'' @ pad 2 (SecFromTime t) @ ''.'' @
     pad 3 (msFromTime t) @ ''Z''"

text \<open>
  \<open>Date.prototype.toString\<close>, which is what \<open>ToString\<close> of a \<open>Date\<close> calls:
  \<open>Www Mmm DD YYYY HH:MM:SS GMT+hhmm (zone name)\<close> in local time. The offset of local
  time (in milliseconds) and the zone's name at a time value are the parameters
  \<open>tza\<close> and \<open>tzn\<close>.
\<close>

definition dateToString :: "(int \<Rightarrow> int) \<Rightarrow> (int \<Rightarrow> string) \<Rightarrow> int \<Rightarrow> string" where
  "dateToString tza tzn t =
     (let tv = t + tza t; off = tza t; y = YearFromTime tv
      in weekdayNames ! nat (WeekDay tv) @ '' '' @ monthNames ! nat (MonthFromTime tv) @ '' '' @
         pad 2 (DateFromTime tv) @ '' '' @ (if y < 0 then ''-'' else []) @ pad 4 (abs y) @ '' '' @
         pad 2 (HourFromTime tv) @ '':'' @ pad 2 (MinFromTime tv) @ '':'' @
         pad 2 (SecFromTime tv) @ '' GMT'' @ (if off < 0 then ''-'' else ''+'') @
         pad 2 (HourFromTime (abs off)) @ pad 2 (MinFromTime (abs off)) @
         '' ('' @ tzn t @ '')'')"


subsection \<open>Descriptors and collaborators\<close>

datatype error = FsError | ParseError | TypeError

record stats =
  isDirectory :: bool
  ctime :: int
  mtime :: int

text \<open>
  What \<open>exif.parse\<close> gives for a file's bytes: it throws, it resolves to
  \<open>undefined\<close> (the reader found nothing to output), or it resolves to an object whose
  \<open>DateTimeOriginal\<close> is a \<open>Date\<close> or is missing.
\<close>

datatype exif = Throws | Undefined | Tags "int option"

record env =
  cwd :: string
  readdir :: "error + string list"
  stat :: "string \<Rightarrow> stats option"
  getType :: "string \<Rightarrow> string option"
  readFile :: "string \<Rightarrow> string option"
  exif_parse :: "string \<Rightarrow> exif"
  existsSync :: "string \<Rightarrow> bool"
  localTZA :: "int \<Rightarrow> int"
  tzName :: "int \<Rightarrow> string"

text \<open>The object \<open>getFileInfo\<close> returns. \<open>name\<close>, \<open>extension\<close>, \<open>mime\<close> and
  \<open>type\<close> can be \<open>undefined\<close> or \<open>null\<close> (\<open>None\<close>); \<open>takenAt\<close> is a \<open>Date\<close>
  or \<open>null\<close>.\<close>

record fileInfo =
  name :: "string option"
  basename :: string
  extension :: "string option"
  path :: string
  mime :: "string option"
  type :: "string option"
  takenAt :: "int option"
  createdAt :: int
  modifiedAt :: int

subsection \<open>\<open>isValidFile\<close> and \<open>getFileInfo\<close>\<close>

definition isValidFile :: "env \<Rightarrow> string \<Rightarrow> error + bool" where
  "isValidFile e filePath =
     (if ''._'' = take 2 (path_basename filePath) \<or>
         path_basename filePath \<in> set [''.DS_Store'']
      then Inr False
      else (case stat e filePath of
              None \<Rightarrow> Inl FsError
            | Some st \<Rightarrow> if isDirectory st then Inr False else Inr True))"

text \<open>\<open>Array.prototype.filter\<close> with a callback that can throw: the first exception
  ends the filter.\<close>

fun filterE :: "('a \<Rightarrow> error + bool) \<Rightarrow> 'a list \<Rightarrow> error + 'a list" where
  "filterE p [] = Inr []"
| "filterE p (x # xs) =
     (case p x of
        Inl err \<Rightarrow> Inl err
      | Inr keep \<Rightarrow>
          (case filterE p xs of
             Inl err \<Rightarrow> Inl err
           | Inr ys \<Rightarrow> Inr (if keep then x # ys else ys)))"

text \<open>
  \<open>getFileInfo\<close>. The file is read and parsed only in the branch for
  \<open>image/jpeg\<close> and \<open>image/tiff\<close>; \<open>exifData.DateTimeOriginal\<close> on \<open>undefined\<close>
  is a \<open>TypeError\<close>. In the returned object \<open>name\<close> is evaluated before
  \<open>extension\<close>, so \<open>pop\<close> sees the array without its first segment.
\<close>

definition getFileInfo :: "env \<Rightarrow> string \<Rightarrow> error + fileInfo" where
  "getFileInfo e filePath =
     (let mimeType = getType e filePath;
          baseType = (case mimeType of
                        None \<Rightarrow> None
                      | Some m \<Rightarrow> fst (js_shift (js_split CHR ''/'' m)));
          splitName = js_split CHR ''.'' (path_basename filePath)
      in case stat e filePath of
           None \<Rightarrow> Inl FsError
         | Some fileStat \<Rightarrow>
             (case (if mimeType \<in> set [Some ''image/jpeg'', Some ''image/tiff'']
                    then (case readFile e filePath of
                            None \<Rightarrow> Inl FsError
                          | Some fileData \<Rightarrow>
                              (case exif_parse e fileData of
                                 Throws \<Rightarrow> Inl ParseError
                               | Undefined \<Rightarrow> Inl TypeError
                               | Tags d \<Rightarrow> Inr d))
                    else Inr None) of
                Inl err \<Rightarrow> Inl err
              | Inr fileTakenAt \<Rightarrow>
                  Inr \<lparr> name = fst (js_shift splitName),
                        basename = path_basename filePath,
                        extension = fst (js_pop (snd (js_shift splitName))),
                        path = filePath,
                        mime = mimeType,
                        type = baseType,
                        takenAt = fileTakenAt,
                        createdAt = ctime fileStat,
                        modifiedAt = mtime fileStat \<rparr>))"

subsection \<open>\<open>Promise.all\<close>\<close>

text \<open>
  The promises settle in some order \<open>sched\<close> (a list of indices). A fulfilled promise
  stores its value at its own index; the first rejection rejects the whole; when every
  index has a value the whole is fulfilled with the values in index order. A schedule
  that leaves a promise unsettled leaves the whole pending.
\<close>

datatype 'a outcome = Pending | Rejected error | Fulfilled 'a

fun settle :: "nat list \<Rightarrow> (error + 'a) list \<Rightarrow> 'a option list \<Rightarrow> 'a list outcome" where
  "settle [] outs vals = (case those vals of None \<Rightarrow> Pending | Some vs \<Rightarrow> Fulfilled vs)"
| "settle (i # sched) outs vals =
     (if i < length outs
      then (case outs ! i of
              Inl err \<Rightarrow> Rejected err
            | Inr v \<Rightarrow> settle sched outs (vals[i := Some v]))
      else settle sched outs vals)"

definition promise_all :: "nat list \<Rightarrow> (error + 'a) list \<Rightarrow> 'a list outcome" where
  "promise_all sched outs = settle sched outs (replicate (length outs) None)"

subsection \<open>Grouping and the groups' type and date\<close>

text \<open>
  \<open>files\<close> is a plain object used as a dictionary: an association list in insertion
  order. A key that \<open>Object.prototype\<close> already has is found there, is truthy and has
  no \<open>push\<close>, so the \<open>forEach\<close> callback throws a \<open>TypeError\<close>. The key of an
  \<open>undefined\<close> name is the string \<open>undefined\<close>.
\<close>

definition objectPrototypeKeys :: "string list" where
  "objectPrototypeKeys =
     [''constructor'', ''__proto__'', ''hasOwnProperty'', ''isPrototypeOf'',
      ''propertyIsEnumerable'', ''toLocaleString'', ''toString'', ''valueOf'',
      ''__defineGetter__'', ''__defineSetter__'', ''__lookupGetter__'', ''__lookupSetter__'']"

definition propertyKey :: "string option \<Rightarrow> string" where
  "propertyKey v = (case v of None \<Rightarrow> ''undefined'' | Some s \<Rightarrow> s)"

fun groupFiles ::
  "fileInfo list \<Rightarrow> (string \<times> fileInfo list) list \<Rightarrow> error + (string \<times> fileInfo list) list" where
  "groupFiles [] files = Inr files"
| "groupFiles (fi # rest) files =
     (let k = propertyKey (name fi)
      in if k \<in> set objectPrototypeKeys then Inl TypeError
         else groupFiles rest
                (case map_of files k of
                   None \<Rightarrow> files @ [(k, [fi])]
                 | Some members \<Rightarrow> AList.update k (members @ [fi]) files))"

text \<open>
  The order in which \<open>for (name in obj)\<close> and \<open>Object.keys(obj)\<close> visit the keys:
  array indices (canonical numerals below \<open>2^32 - 1\<close>) in ascending order, then the
  other keys in insertion order.
\<close>

definition decValue :: "string \<Rightarrow> int" where
  "decValue s = foldl (\<lambda>n c. 10 * n + (of_char c - 48)) 0 s"

definition isArrayIndex :: "string \<Rightarrow> bool" where
  "isArrayIndex s =
     (s \<noteq> [] \<and> list_all (\<lambda>c. c \<in> set ''0123456789'') s \<and>
      (s = ''0'' \<or> \<not> (hd s = CHR ''0'')) \<and> decValue s < 4294967295)"

definition ownKeysOrder :: "(string \<times> 'v) list \<Rightarrow> (string \<times> 'v) list" where
  "ownKeysOrder kvs =
     sort_key (\<lambda>kv. decValue (fst kv)) (filter (\<lambda>kv. isArrayIndex (fst kv)) kvs) @
     filter (\<lambda>kv. \<not> isArrayIndex (fst kv)) kvs"

text \<open>The group's type: \<open>filter(...).map(...).shift() || 'other'\<close>.\<close>

definition groupType :: "fileInfo list \<Rightarrow> string" where
  "groupType fileInfos =
     (case fst (js_shift
                 (map type
                    (filter (\<lambda>fi. type fi \<in> set [Some ''image'', Some ''audio'', Some ''video''])
                       fileInfos))) of
        Some (Some t) \<Rightarrow> if t = [] then ''other'' else t
      | _ \<Rightarrow> ''other'')"

text \<open>
  The group's date: \<open>map(takenAt || modifiedAt).sort().shift()\<close>. \<open>sort()\<close> has no
  comparison function, so it orders the \<open>Date\<close>s by their \<open>ToString\<close>, code unit by
  code unit, and is stable.
\<close>

definition groupDate :: "env \<Rightarrow> fileInfo list \<Rightarrow> int option" where
  "groupDate e fileInfos =
     fst (js_shift
            (sort_key (dateToString (localTZA e) (tzName e))
               (map (\<lambda>fi. case takenAt fi of Some d \<Rightarrow> d | None \<Rightarrow> modifiedAt fi)
                  fileInfos)))"

definition dateString :: "int \<Rightarrow> string" where
  "dateString d = propertyKey (fst (js_shift (js_split CHR ''T'' (toISOString d))))"

subsection \<open>The listing per type and date, and the table\<close>

record row =
  File :: string
  Class :: string
  Date :: string

type_synonym listing = "(string \<times> (string \<times> fileInfo list) list) list"

text \<open>
  \<open>filesPerTypeAndDate[groupType][dateString].push(...fileInfos)\<close>, after the two
  objects on the way have been created where they were missing. A new key goes to the
  end; an existing one keeps its place.
\<close>

definition pushListing :: "string \<Rightarrow> string \<Rightarrow> fileInfo list \<Rightarrow> listing \<Rightarrow> listing" where
  "pushListing t d fileInfos listing =
     (let dates = (case map_of listing t of None \<Rightarrow> [] | Some ds \<Rightarrow> ds);
          members = (case map_of dates d of None \<Rightarrow> [] | Some fs \<Rightarrow> fs)
      in AList.update t (AList.update d (members @ fileInfos) dates) listing)"

text \<open>The body of \<open>for (let name in files)\<close>, group by group. A group with no
  member would have no date, and \<open>undefined.toISOString()\<close> is a \<open>TypeError\<close>.\<close>

fun processGroups ::
  "env \<Rightarrow> (string \<times> fileInfo list) list \<Rightarrow> listing \<times> row list \<Rightarrow> error + listing \<times> row list" where
  "processGroups e [] acc = Inr acc"
| "processGroups e ((k, fileInfos) # groups) (listing, rows) =
     (case groupDate e fileInfos of
        None \<Rightarrow> Inl TypeError
      | Some d \<Rightarrow>
          processGroups e groups
            (pushListing (groupType fileInfos) (dateString d) fileInfos listing,
             rows @ map (\<lambda>fi. \<lparr> File = basename fi, Class = groupType fileInfos,
                                  Date = dateString d \<rparr>) fileInfos))"

subsection \<open>Moving\<close>

text \<open>
  The file-system calls of move mode. \<open>createDirectoryIfNotExisting\<close> asks
  \<open>existsSync\<close> and calls \<open>mkdir\<close> only for a path that does not exist. A task is
  what one asynchronous function does, in order; a phase is the tasks one
  \<open>Promise.all\<close> awaits; the phases follow each other.
\<close>

datatype fs_op = Mkdir string | Rename string string

definition typeDirNames :: "(string \<times> string) list" where
  "typeDirNames = [(''image'', ''Image''), (''video'', ''Video''),
                   (''audio'', ''Audio''), (''other'', ''Other'')]"

definition typeDirName :: "string \<Rightarrow> string" where
  "typeDirName t = (case map_of typeDirNames t of None \<Rightarrow> ''Other'' | Some d \<Rightarrow> d)"

definition createDirectoryIfNotExisting :: "env \<Rightarrow> string \<Rightarrow> fs_op list" where
  "createDirectoryIfNotExisting e p = (if existsSync e p then [] else [Mkdir p])"

definition dateTask :: "env \<Rightarrow> string \<Rightarrow> string \<times> fileInfo list \<Rightarrow> fs_op list" where
  "dateTask e dirType dateFiles =
     (let dirDate = path_join dirType (fst dateFiles)
      in createDirectoryIfNotExisting e dirDate @
         map (\<lambda>fi. Rename (path fi) (path_join dirDate (basename fi))) (snd dateFiles))"

definition typeDirPhase :: "env \<Rightarrow> listing \<Rightarrow> fs_op list list" where
  "typeDirPhase e listing =
     map (\<lambda>td. createDirectoryIfNotExisting e (path_join (cwd e) (typeDirName (fst td))))
       (ownKeysOrder listing)"

definition typePhase :: "env \<Rightarrow> string \<times> (string \<times> fileInfo list) list \<Rightarrow> fs_op list list" where
  "typePhase e td =
     map (dateTask e (path_join (cwd e) (typeDirName (fst td)))) (ownKeysOrder (snd td))"

definition mover :: "env \<Rightarrow> listing \<Rightarrow> fs_op list list list" where
  "mover e listing = typeDirPhase e listing # map (typePhase e) (ownKeysOrder listing)"

subsection \<open>\<open>main\<close>\<close>

record run =
  infos :: "fileInfo list"
  groups :: "(string \<times> fileInfo list) list"
  plan :: listing
  table :: "row list"
  moving :: "fs_op list list list"

text \<open>
  \<open>main\<close> up to the point where it either returns (no \<open>move\<close> command) or starts
  the file-system calls of \<open>moving\<close>. \<open>sched\<close> is the order in which the
  \<open>getFileInfo\<close> promises settle. The fields \<open>infos\<close>, \<open>groups\<close> and \<open>plan\<close> are
  the values of \<open>baseFilesInfo\<close>, \<open>files\<close> and \<open>filesPerTypeAndDate\<close>; \<open>table\<close> is
  what \<open>console.table\<close> prints.
\<close>

text \<open>\<open>baseFiles\<close>: the directory's entries, joined to the working directory and
  filtered by \<open>isValidFile\<close>.\<close>

definition scan :: "env \<Rightarrow> error + string list" where
  "scan e =
     (case readdir e of
        Inl err \<Rightarrow> Inl err
      | Inr fileNames \<Rightarrow> filterE (isValidFile e) (map (path_join (cwd e)) fileNames))"

definition main :: "env \<Rightarrow> nat list \<Rightarrow> string option \<Rightarrow> run outcome" where
  "main e sched command =
     (case scan e of
        Inl err \<Rightarrow> Rejected err
      | Inr baseFiles \<Rightarrow>
     (case promise_all sched (map (getFileInfo e) baseFiles) of
        Pending \<Rightarrow> Pending
      | Rejected err \<Rightarrow> Rejected err
      | Fulfilled baseFilesInfo \<Rightarrow>
     (case groupFiles baseFilesInfo [] of
        Inl err \<Rightarrow> Rejected err
      | Inr files \<Rightarrow>
     (case processGroups e (ownKeysOrder files) ([], []) of
        Inl err \<Rightarrow> Rejected err
      | Inr (filesPerTypeAndDate, filesForInformation) \<Rightarrow>
          Fulfilled \<lparr> infos = baseFilesInfo, groups = files, plan = filesPerTypeAndDate,
                      table = filesForInformation,
                      moving = (if command \<noteq> Some ''move'' then []
                                else mover e filesPerTypeAndDate) \<rparr>))))"

subsection \<open>Executions of the moving phases\<close>

text \<open>
  \<open>ok\<close> says which file-system calls succeed. A task stops at its first failing
  call: \<open>attempted\<close> are the calls it makes. The tasks of a phase interleave in any
  way (\<open>interleaved\<close>: every step takes the next call of some task). After a phase
  with a failed task the \<open>await\<close> throws and no later phase starts.
\<close>

definition attempted :: "(fs_op \<Rightarrow> bool) \<Rightarrow> fs_op list \<Rightarrow> fs_op list" where
  "attempted ok ops = takeWhile ok ops @ take 1 (dropWhile ok ops)"

fun interleaved :: "'a list list \<Rightarrow> 'a list \<Rightarrow> bool" where
  "interleaved ts [] = list_all (\<lambda>t. t = []) ts"
| "interleaved ts (x # tr) =
     list_ex (\<lambda>i. (case ts ! i of [] \<Rightarrow> False
                   | y # rest \<Rightarrow> y = x \<and> interleaved (ts[i := rest]) tr))
       [0..<length ts]"

fun exec :: "(fs_op \<Rightarrow> bool) \<Rightarrow> fs_op list list list \<Rightarrow> fs_op list \<Rightarrow> bool" where
  "exec ok [] tr = (tr = [])"
| "exec ok (phase # phases) tr =
     (let n = length (concat (map (attempted ok) phase))
      in interleaved (map (attempted ok) phase) (take n tr) \<and>
         (if list_all (list_all ok) phase then exec ok phases (drop n tr)
          else drop n tr = []))"

subsection \<open>A sample directory\<close>

text \<open>
  Collaborators for the examples: a directory \<open>/photos\<close> with the given entries, all
  regular files with the same time stamps (2023-05-03T00:00:00Z), a small MIME table
  keyed by what follows the last dot, an EXIF reader that finds tags without a
  \<open>DateTimeOriginal\<close>, no directory existing yet, and UTC as the local time zone.
\<close>

definition sampleStats :: stats where
  "sampleStats = \<lparr> isDirectory = False, ctime = 1683072000000, mtime = 1683072000000 \<rparr>"

definition sampleTypes :: "(string \<times> string) list" where
  "sampleTypes = [(''jpg'', ''image/jpeg''), (''dng'', ''image/x-adobe-dng''),
                  (''mp4'', ''video/mp4''), (''mp3'', ''audio/mpeg''), (''txt'', ''text/plain'')]"

definition sampleGetType :: "string \<Rightarrow> string option" where
  "sampleGetType p =
     (case fst (js_pop (snd (js_shift (js_split CHR ''.'' (path_basename p))))) of
        None \<Rightarrow> None
      | Some ext \<Rightarrow> map_of sampleTypes ext)"

definition sampleEnv :: "string list \<Rightarrow> env" where
  "sampleEnv fileNames =
     \<lparr> cwd = ''/photos'', readdir = Inr fileNames, stat = (\<lambda>p. Some sampleStats),
       getType = sampleGetType, readFile = (\<lambda>p. Some p), exif_parse = (\<lambda>data. Tags None),
       existsSync = (\<lambda>p. False), localTZA = (\<lambda>t. 0),
       tzName = (\<lambda>t. ''Coordinated Universal Time'') \<rparr>"

definition sampleInfo :: "string \<Rightarrow> string option \<Rightarrow> int option \<Rightarrow> int \<Rightarrow> fileInfo" where
  "sampleInfo b m taken modified =
     \<lparr> name = fst (js_shift (js_split CHR ''.'' b)), basename = b,
       extension = fst (js_pop (snd (js_shift (js_split CHR ''.'' b)))),
       path = path_join ''/photos'' b, mime = m,
       type = (case m of None \<Rightarrow> None | Some t \<Rightarrow> fst (js_shift (js_split CHR ''/'' t))),
       takenAt = taken, createdAt = modified, modifiedAt = modified \<rparr>"


subsection \<open>Notions for the proofs\<close>

text \<open>
  The listing flattened to its entries (type, date, file), the entries the groups'
  types and dates ask for, and the \<open>rename\<close> call of an entry.
\<close>

definition dateEntries :: "string \<Rightarrow> (string \<times> fileInfo list) list \<Rightarrow> (string \<times> string \<times> fileInfo) list" where
  "dateEntries t dates = concat (map (\<lambda>df. map (\<lambda>fi. (t, fst df, fi)) (snd df)) dates)"

definition entries :: "listing \<Rightarrow> (string \<times> string \<times> fileInfo) list" where
  "entries listing = concat (map (\<lambda>td. dateEntries (fst td) (snd td)) listing)"

definition verdictEntries :: "env \<Rightarrow> (string \<times> fileInfo list) list \<Rightarrow> (string \<times> string \<times> fileInfo) list" where
  "verdictEntries e gs =
     concat (map (\<lambda>g. case groupDate e (snd g) of
                          None \<Rightarrow> []
                        | Some d \<Rightarrow> map (\<lambda>fi. (groupType (snd g), dateString d, fi)) (snd g)) gs)"

definition renameOf :: "env \<Rightarrow> string \<times> string \<times> fileInfo \<Rightarrow> fs_op" where
  "renameOf e tdf =
     (case tdf of (t, d, fi) \<Rightarrow>
        Rename (path fi)
          (path_join (path_join (path_join (cwd e) (typeDirName t)) d) (basename fi)))"

subsection \<open>Basic facts\<close>

lemma js_split_nonempty: "js_split c s \<noteq> []"
  by (induction s) (auto split: list.splits)


lemma js_split_hd: "js_split c s = takeWhile (\<lambda>x. x \<noteq> c) s # (case dropWhile (\<lambda>x. x \<noteq> c) s of [] \<Rightarrow> [] | _ # r \<Rightarrow> js_split c r)"
  by (induction s) (auto split: list.splits)

lemma js_shift_split: "fst (js_shift (js_split c s)) = Some (takeWhile (\<lambda>x. x \<noteq> c) s)"
  by (subst js_split_hd) (simp add: js_shift_def)

lemma js_split_single: "c \<notin> set s \<Longrightarrow> js_split c s = [s]"
  by (induction s) auto

lemma js_split_many: "c \<in> set s \<Longrightarrow> \<exists>a b r. js_split c s = a # b # r"
proof (induction s)
  case Nil then show ?case by simp
next
  case (Cons x xs)
  show ?case
  proof (cases "x = c")
    case True
    then show ?thesis using js_split_nonempty[of c xs] by (cases "js_split c xs") auto
  next
    case False
    with Cons show ?thesis by auto
  qed
qed

lemma js_split_last: "last (js_split c s) = rev (takeWhile (\<lambda>x. x \<noteq> c) (rev s))"
proof (induction s)
  case Nil then show ?case by simp
next
  case (Cons x xs)
  show ?case
  proof (cases "c \<in> set xs")
    case True
    then obtain a b r where "js_split c xs = a # b # r" using js_split_many by blast
    moreover have "takeWhile (\<lambda>x. x \<noteq> c) (rev xs @ [x]) = takeWhile (\<lambda>x. x \<noteq> c) (rev xs)"
      using True by (intro takeWhile_append1[of c]) auto
    ultimately show ?thesis using Cons by auto
  next
    case False
    then have "takeWhile (\<lambda>x. x \<noteq> c) (rev xs @ [x]) = rev xs @ takeWhile (\<lambda>x. x \<noteq> c) [x]"
      by (intro takeWhile_append2) auto
    then show ?thesis using False by (auto simp: js_split_single)
  qed
qed

lemma extension_split:
  "fst (js_pop (snd (js_shift (js_split c s)))) =
     (if c \<in> set s then Some (rev (takeWhile (\<lambda>x. x \<noteq> c) (rev s))) else None)"
proof (cases "c \<in> set s")
  case True
  then obtain a b r where "js_split c s = a # b # r" using js_split_many by blast
  then show ?thesis using True js_split_last[of c s] by (simp add: js_shift_def js_pop_def)
next
  case False
  then show ?thesis by (simp add: js_split_single js_shift_def js_pop_def)
qed


lemma those_Some_map: "those vals = Some vs \<Longrightarrow> vals = map Some vs"
  by (induction vals arbitrary: vs) (auto split: option.splits)

lemma settle_fulfilled:
  "settle sched outs vals = Fulfilled vs \<Longrightarrow> length vals = length outs \<Longrightarrow>
   (\<And>i. i < length outs \<Longrightarrow> vals ! i = None \<or> (\<exists>v. vals ! i = Some v \<and> outs ! i = Inr v)) \<Longrightarrow>
   outs = map Inr vs"
proof (induction sched outs vals rule: settle.induct)
  case (1 outs vals)
  then have v: "vals = map Some vs" by (auto split: option.splits dest: those_Some_map)
  show ?case
  proof (rule nth_equalityI)
    show "length outs = length (map Inr vs)" using 1(2) v by simp
  next
    fix i assume "i < length outs"
    then show "outs ! i = map Inr vs ! i" using 1(3)[of i] 1(2) v by auto
  qed
next
  case (2 i sched outs vals)
  show ?case
  proof (cases "i < length outs")
    case True
    then obtain v where v: "outs ! i = Inr v" using 2(3) by (cases "outs ! i") auto
    have "settle sched outs (vals[i := Some v]) = Fulfilled vs" using 2(3) True v by simp
    moreover have "length (vals[i := Some v]) = length outs" using 2(4) by simp
    moreover have "\<And>j. j < length outs \<Longrightarrow> vals[i := Some v] ! j = None \<or> (\<exists>w. vals[i := Some v] ! j = Some w \<and> outs ! j = Inr w)"
    proof -
      fix j assume j: "j < length outs"
      show "vals[i := Some v] ! j = None \<or> (\<exists>w. vals[i := Some v] ! j = Some w \<and> outs ! j = Inr w)"
      proof (cases "j = i")
        case True
        then show ?thesis using j 2(4) v by simp
      next
        case False
        then show ?thesis using 2(5)[OF j] by simp
      qed
    qed
    ultimately show ?thesis using 2(1)[OF True v] by blast
  next
    case False
    then show ?thesis using 2 by auto
  qed
qed

lemma promise_all_fulfilled: "promise_all sched outs = Fulfilled vs \<Longrightarrow> outs = map Inr vs"
  unfolding promise_all_def by (erule settle_fulfilled) auto





lemma path_basename_join:
  assumes "n \<noteq> []" "CHR ''/'' \<notin> set n"
  shows "path_basename (path_join c n) = n"
proof -
  have d: "dropWhile (\<lambda>c. c = CHR ''/'') (rev n @ ys) = rev n @ ys" for ys
    using assms by (cases "rev n") auto
  have t: "takeWhile (\<lambda>c. c \<noteq> CHR ''/'') (rev n @ CHR ''/'' # ys) = rev n" for ys
    using assms by (auto simp: takeWhile_tail)
  show ?thesis
  proof (cases "c \<noteq> [] \<and> last c = CHR ''/''")
    case True
    then obtain c' where c: "c = c' @ ''/''" by (metis append_butlast_last_id)
    show ?thesis using True d[of "CHR ''/'' # rev c'"] t[of "rev c'"]
      by (simp add: path_basename_def path_join_def c)
  next
    case False
    then show ?thesis using d[of "CHR ''/'' # rev c"] t[of "rev c"]
      by (auto simp: path_basename_def path_join_def)
  qed
qed

lemma filterE_subset: "filterE p xs = Inr ys \<Longrightarrow> set ys \<subseteq> set xs"
  by (induction xs arbitrary: ys) (auto split: sum.splits if_splits)

lemma scan_entries:
  "scan e = Inr baseFiles \<Longrightarrow> readdir e = Inr fileNames \<Longrightarrow>
   set baseFiles \<subseteq> path_join (cwd e) ` set fileNames"
  by (auto simp: scan_def dest!: filterE_subset)

lemma getFileInfo_fields:
  assumes "getFileInfo e filePath = Inr fi"
  shows "name fi = Some (takeWhile (\<lambda>c. c \<noteq> CHR ''.'') (path_basename filePath))"
    and "extension fi =
           (if CHR ''.'' \<in> set (path_basename filePath)
            then Some (rev (takeWhile (\<lambda>c. c \<noteq> CHR ''.'') (rev (path_basename filePath))))
            else None)"
    and "basename fi = path_basename filePath"
    and "path fi = filePath"
  using assms
  by (auto simp: getFileInfo_def Let_def js_shift_split extension_split
           split: option.splits sum.splits if_splits exif.splits)

lemma main_stages:
  assumes "main e sched command = Fulfilled r"
  shows "\<exists>baseFiles. scan e = Inr baseFiles \<and>
           promise_all sched (map (getFileInfo e) baseFiles) = Fulfilled (infos r) \<and>
           groupFiles (infos r) [] = Inr (groups r) \<and>
           processGroups e (ownKeysOrder (groups r)) ([], []) = Inr (plan r, table r) \<and>
           moving r = (if command \<noteq> Some ''move'' then [] else mover e (plan r))"
  using assms
  by (auto simp: main_def split: sum.splits outcome.splits prod.splits)



lemma main_same_infos:
  "scan e = Inr baseFiles \<Longrightarrow>
   promise_all s1 (map (getFileInfo e) baseFiles) = Fulfilled vs \<Longrightarrow>
   promise_all s2 (map (getFileInfo e) baseFiles) = Fulfilled vs \<Longrightarrow>
   main e s1 command = main e s2 command \<and> main e s1 command \<noteq> Pending"
  by (simp add: main_def split: sum.splits prod.splits)

lemma exec_Nil: "exec ok [] tr \<longleftrightarrow> tr = []"
  by simp

lemma mset_ownKeysOrder: "mset (ownKeysOrder kvs) = mset kvs"
  by (simp add: ownKeysOrder_def)

lemma set_ownKeysOrder: "set (ownKeysOrder kvs) = set kvs"
  by (metis mset_ownKeysOrder set_mset_mset)

lemma mset_concat_map_cong:
  "mset xs = mset ys \<Longrightarrow> mset (concat (map f xs)) = mset (concat (map f ys))"
  by (metis mset_concat mset_map sum_mset_sum_list)

lemma dateEntries_update:
  "mset (dateEntries t (AList.update d ((case map_of dates d of None \<Rightarrow> [] | Some fs \<Rightarrow> fs) @ fileInfos) dates))
     = mset (dateEntries t dates) + mset (map (\<lambda>fi. (t, d, fi)) fileInfos)"
  by (induction dates) (auto simp: dateEntries_def)

lemma entries_pushListing:
  "mset (entries (pushListing t d fileInfos listing))
     = mset (entries listing) + mset (map (\<lambda>fi. (t, d, fi)) fileInfos)"
proof (induction listing)
  case Nil
  then show ?case
    by (simp add: pushListing_def entries_def dateEntries_def Let_def)
next
  case (Cons td listing)
  show ?case
  proof (cases "fst td = t")
    case True
    then show ?thesis using dateEntries_update[of t d "snd td" fileInfos]
      by (cases td) (simp add: pushListing_def entries_def Let_def)
  next
    case False
    then show ?thesis using Cons
      by (cases td) (simp add: pushListing_def entries_def Let_def)
  qed
qed

lemma processGroups_entries:
  "processGroups e gs (listing, rows) = Inr (listing', rows') \<Longrightarrow>
   mset (entries listing') = mset (entries listing) + mset (verdictEntries e gs) \<and>
   rows' = rows @ map (\<lambda>(t, d, fi). \<lparr> File = basename fi, Class = t, Date = d \<rparr>) (verdictEntries e gs) \<and>
   (\<forall>g\<in>set gs. groupDate e (snd g) \<noteq> None)"
proof (induction gs arbitrary: listing rows)
  case Nil
  then show ?case by (simp add: verdictEntries_def)
next
  case (Cons g gs)
  obtain k fileInfos where g: "g = (k, fileInfos)" by (cases g)
  from Cons.prems obtain d where d: "groupDate e fileInfos = Some d"
    by (auto simp: g split: option.splits)
  have "processGroups e gs
          (pushListing (groupType fileInfos) (dateString d) fileInfos listing,
           rows @ map (\<lambda>fi. \<lparr> File = basename fi, Class = groupType fileInfos,
                                Date = dateString d \<rparr>) fileInfos) = Inr (listing', rows')"
    using Cons.prems by (simp add: g d)
  from Cons.IH[OF this] show ?case
    by (simp add: entries_pushListing verdictEntries_def g d comp_def)
qed

lemma map_of_append_new:
  "map_of files k = None \<Longrightarrow> map_of (files @ [(k, v)]) = (map_of files)(k \<mapsto> v)"
  by (auto simp: map_add_def fun_eq_iff split: option.splits)

lemma groupFiles_members:
  "groupFiles fis files0 = Inr files \<Longrightarrow> distinct (map fst files0) \<Longrightarrow>
   distinct (map fst files) \<and>
   (\<forall>k ms0. map_of files0 k = Some ms0 \<longrightarrow> (\<exists>ms. map_of files k = Some (ms0 @ ms))) \<and>
   (\<forall>fi\<in>set fis. \<exists>ms. map_of files (propertyKey (name fi)) = Some ms \<and> fi \<in> set ms) \<and>
   mset (concat (map snd files)) = mset (concat (map snd files0)) + mset fis"
proof (induction fis arbitrary: files0)
  case Nil
  then show ?case by simp
next
  case (Cons fi fis)
  let ?k = "propertyKey (name fi)"
  let ?files1 = "(case map_of files0 ?k of
                   None \<Rightarrow> files0 @ [(?k, [fi])]
                 | Some members \<Rightarrow> AList.update ?k (members @ [fi]) files0)"
  have step: "groupFiles fis ?files1 = Inr files"
    using Cons.prems(1) by (simp add: Let_def split: if_splits)
  have d1: "distinct (map fst ?files1)"
    using Cons.prems(2) by (auto split: option.splits simp: distinct_update map_of_eq_None_iff)
  have m1: "map_of ?files1 = (map_of files0)(?k \<mapsto> (case map_of files0 ?k of None \<Rightarrow> [] | Some ms \<Rightarrow> ms) @ [fi])"
  proof (cases "map_of files0 ?k")
    case None
    then show ?thesis using map_of_append_new[OF None, of "[fi]"] by simp
  next
    case (Some ms)
    then show ?thesis by (simp add: update_conv')
  qed
  have s1: "mset (concat (map snd ?files1)) = mset (concat (map snd files0)) + {#fi#}"
  proof (cases "map_of files0 ?k")
    case None
    then show ?thesis by simp
  next
    case (Some ms)
    have "mset (concat (map snd (AList.update k (ms @ [fi]) fs))) = mset (concat (map snd fs)) + {#fi#}"
      if "map_of fs k = Some ms" for fs k
      using that by (induction fs) (auto split: if_splits)
    then show ?thesis using Some by simp
  qed
  note ih = Cons.IH[OF step d1]
  show ?case
  proof (intro conjI allI impI ballI)
    show "distinct (map fst files)" using ih by blast
  next
    fix k ms0 assume a: "map_of files0 k = Some ms0"
    show "\<exists>ms. map_of files k = Some (ms0 @ ms)"
    proof (cases "k = ?k")
      case True
      then have "map_of ?files1 k = Some (ms0 @ [fi])" using a m1 by simp
      then obtain ms where "map_of files k = Some ((ms0 @ [fi]) @ ms)" using ih by blast
      then show ?thesis by simp
    next
      case False
      then have "map_of ?files1 k = Some ms0" using a m1 by simp
      then show ?thesis using ih by blast
    qed
  next
    fix f assume "f \<in> set (fi # fis)"
    then consider "f = fi" | "f \<in> set fis" by auto
    then show "\<exists>ms. map_of files (propertyKey (name f)) = Some ms \<and> f \<in> set ms"
    proof cases
      case 1
      have "map_of ?files1 ?k = Some ((case map_of files0 ?k of None \<Rightarrow> [] | Some ms \<Rightarrow> ms) @ [fi])"
        using m1 by simp
      then obtain ms where "map_of files ?k = Some (((case map_of files0 ?k of None \<Rightarrow> [] | Some ms \<Rightarrow> ms) @ [fi]) @ ms)"
        using ih by blast
      then show ?thesis using 1 by simp
    next
      case 2
      then show ?thesis using ih by blast
    qed
  next
    show "mset (concat (map snd files)) = mset (concat (map snd files0)) + mset (fi # fis)"
      using ih s1 by simp
  qed
qed

lemma interleaved_Cons_iff:
  "interleaved ts (x # tr) \<longleftrightarrow>
     (\<exists>i<length ts. \<exists>rest. ts ! i = x # rest \<and> interleaved (ts[i := rest]) tr)"
proof
  assume "interleaved ts (x # tr)"
  then obtain i where i: "i < length ts"
    "case ts ! i of [] \<Rightarrow> False | y # rest \<Rightarrow> y = x \<and> interleaved (ts[i := rest]) tr"
    by (auto simp: list_ex_iff)
  then obtain rest where "ts ! i = x # rest" "interleaved (ts[i := rest]) tr"
    by (cases "ts ! i") auto
  then show "\<exists>i<length ts. \<exists>rest. ts ! i = x # rest \<and> interleaved (ts[i := rest]) tr"
    using i(1) by blast
next
  assume "\<exists>i<length ts. \<exists>rest. ts ! i = x # rest \<and> interleaved (ts[i := rest]) tr"
  then obtain i rest where "i < length ts" "ts ! i = x # rest" "interleaved (ts[i := rest]) tr"
    by blast
  then have "i \<in> set [0..<length ts] \<and>
     (case ts ! i of [] \<Rightarrow> False | y # rest \<Rightarrow> y = x \<and> interleaved (ts[i := rest]) tr)"
    by simp
  then show "interleaved ts (x # tr)"
    unfolding interleaved.simps list_ex_iff by blast
qed

lemma concat_update_head:
  "i < length ts \<Longrightarrow> ts ! i = x # rest \<Longrightarrow>
   mset (concat ts) = add_mset x (mset (concat (ts[i := rest])))"
proof (induction ts arbitrary: i)
  case Nil
  then show ?case by simp
next
  case (Cons t ts)
  then show ?case by (cases i) auto
qed

lemma interleaved_mset: "interleaved ts tr \<Longrightarrow> mset tr = mset (concat ts)"
proof (induction tr arbitrary: ts)
  case Nil
  then have "concat ts = []" by (auto simp: list_all_iff)
  then show ?case by simp
next
  case (Cons x tr)
  then obtain i rest where i: "i < length ts" "ts ! i = x # rest" "interleaved (ts[i := rest]) tr"
    unfolding interleaved_Cons_iff by blast
  show ?case using Cons.IH[OF i(3)] concat_update_head[OF i(1,2)] by simp
qed

lemma interleaved_set: "interleaved ts tr \<Longrightarrow> set tr = set (concat ts)"
  by (metis interleaved_mset set_mset_mset)

lemma interleaved_length: "interleaved ts tr \<Longrightarrow> length tr = length (concat ts)"
  by (metis interleaved_mset size_mset)


lemma attempted_prefix: "\<exists>w. ops = attempted ok ops @ w"
proof -
  have "ops = takeWhile ok ops @ take 1 (dropWhile ok ops) @ drop 1 (dropWhile ok ops)"
    by simp
  then show ?thesis unfolding attempted_def by (metis append.assoc)
qed



lemma attempted_stops:
  "\<not> ok x \<Longrightarrow> set (attempted ok (a @ x # b)) \<subseteq> set a \<union> {x}"
proof (induction a)
  case Nil
  then show ?case by (simp add: attempted_def)
next
  case (Cons y a)
  then show ?case by (cases "ok y") (auto simp: attempted_def)
qed

lemma attempted_subset: "set (attempted ok ops) \<subseteq> set ops"
  by (metis attempted_prefix set_append sup_ge1)

lemma exec_Cons_iff:
  "exec ok (phase # phases) tr \<longleftrightarrow>
     (\<exists>a b. tr = a @ b \<and> interleaved (map (attempted ok) phase) a \<and>
            (if list_all (list_all ok) phase then exec ok phases b else b = []))"
proof
  assume e: "exec ok (phase # phases) tr"
  show "\<exists>a b. tr = a @ b \<and> interleaved (map (attempted ok) phase) a \<and>
            (if list_all (list_all ok) phase then exec ok phases b else b = [])"
  proof -
    define n where "n = length (concat (map (attempted ok) phase))"
    have "tr = take n tr @ drop n tr" by simp
    moreover have "interleaved (map (attempted ok) phase) (take n tr)"
      using e by (simp add: Let_def n_def)
    moreover have "if list_all (list_all ok) phase then exec ok phases (drop n tr)
                   else drop n tr = []"
      using e by (simp add: Let_def n_def)
    ultimately show ?thesis by blast
  qed
next
  assume "\<exists>a b. tr = a @ b \<and> interleaved (map (attempted ok) phase) a \<and>
            (if list_all (list_all ok) phase then exec ok phases b else b = [])"
  then obtain a b where ab: "tr = a @ b" "interleaved (map (attempted ok) phase) a"
     "if list_all (list_all ok) phase then exec ok phases b else b = []" by blast
  have "length a = length (concat (map (attempted ok) phase))"
    using interleaved_length[OF ab(2)] .
  then show "exec ok (phase # phases) tr" using ab by (auto simp: Let_def)
qed



lemma exec_set: "exec ok phases tr \<Longrightarrow> set tr \<subseteq> set (concat (concat phases))"
proof (induction phases arbitrary: tr)
  case Nil
  then show ?case by simp
next
  case (Cons phase phases)
  from Cons.prems obtain a b where ab: "tr = a @ b"
    "interleaved (map (attempted ok) phase) a"
    "if list_all (list_all ok) phase then exec ok phases b else b = []"
    unfolding exec_Cons_iff by blast
  have "set a \<subseteq> set (concat phase)"
    using interleaved_set[OF ab(2)] attempted_subset by fastforce
  moreover have "set b \<subseteq> set (concat (concat phases))"
    using ab(3) Cons.IH by (auto split: if_splits)
  ultimately show ?case using ab(1) by auto
qed

lemma exec_failed_task:
  assumes "exec ok phases tr"
      and "distinct (concat (concat phases))"
      and "phases = pre @ phase # post"
      and "task \<in> set phase"
      and "task = a @ x # b"
      and "\<not> ok x"
  shows "(\<forall>y\<in>set b. y \<notin> set tr) \<and> (\<forall>y\<in>set (concat (concat post)). y \<notin> set tr)"
  using assms(1,2,3)
proof (induction pre arbitrary: phases tr)
  case Nil
  then have ex: "exec ok (phase # post) tr" and d: "distinct (concat phase @ concat (concat post))"
    by simp_all
  from ex obtain a' b' where ab: "tr = a' @ b'"
    "interleaved (map (attempted ok) phase) a'"
    "if list_all (list_all ok) phase then exec ok post b' else b' = []"
    unfolding exec_Cons_iff by blast
  have "\<not> list_all ok task" using assms(5,6) by simp
  then have "\<not> list_all (list_all ok) phase" using assms(4) by (auto simp: list_all_iff)
  then have tr: "tr = a'" using ab by simp
  have st: "set tr = (\<Union>t\<in>set phase. set (attempted ok t))"
    using interleaved_set[OF ab(2)] tr by simp
  have dp: "distinct (concat phase)" using d by simp
  have dt: "distinct task" using dp assms(4) by (auto simp: distinct_concat_iff)
  have other: "set t \<inter> set task = {}" if "t \<in> set phase" "t \<noteq> task" for t
    using dp that assms(4) by (auto simp: distinct_concat_iff)
  have "y \<notin> set tr" if y: "y \<in> set b" for y
  proof
    assume "y \<in> set tr"
    then obtain t where t: "t \<in> set phase" "y \<in> set (attempted ok t)" using st by blast
    show False
    proof (cases "t = task")
      case True
      then have "y \<in> set a \<union> {x}" using attempted_stops[of ok x a b] assms(6) t(2) assms(5) by blast
      then show False using dt y assms(5) by auto
    next
      case False
      then have "set t \<inter> set task = {}" using other t(1) by blast
      moreover have "y \<in> set t" using t(2) attempted_subset by blast
      moreover have "y \<in> set task" using y assms(5) by simp
      ultimately show False by blast
    qed
  qed
  moreover have "y \<notin> set tr" if "y \<in> set (concat (concat post))" for y
  proof -
    have "set tr \<subseteq> set (concat phase)" using st attempted_subset by fastforce
    moreover have "set (concat phase) \<inter> set (concat (concat post)) = {}" using d by simp
    ultimately show ?thesis using that by blast
  qed
  ultimately show ?case by blast
next
  case (Cons p pre)
  then have ex: "exec ok (p # (pre @ phase # post)) tr"
    and d: "distinct (concat p @ concat (concat (pre @ phase # post)))"
    by simp_all
  from ex obtain a' b' where ab: "tr = a' @ b'"
    "interleaved (map (attempted ok) p) a'"
    "if list_all (list_all ok) p then exec ok (pre @ phase # post) b' else b' = []"
    unfolding exec_Cons_iff by blast
  have sa: "set a' \<subseteq> set (concat p)"
    using interleaved_set[OF ab(2)] attempted_subset by fastforce
  have d': "distinct (concat (concat (pre @ phase # post)))" using d by simp
  have ih: "(\<forall>y\<in>set b. y \<notin> set b') \<and> (\<forall>y\<in>set (concat (concat post)). y \<notin> set b')"
  proof (cases "b' = []")
    case True
    then show ?thesis by simp
  next
    case False
    then have "exec ok (pre @ phase # post) b'" using ab(3) by (auto split: if_splits)
    from Cons.IH[OF this d' refl] show ?thesis .
  qed
  have later: "y \<notin> set a'" if "y \<in> set (concat (concat (pre @ phase # post)))" for y
  proof -
    have "set (concat p) \<inter> set (concat (concat (pre @ phase # post))) = {}"
      using d by simp
    then show ?thesis using that sa by blast
  qed
  have sb: "set b \<subseteq> set (concat phase)"
    using assms(4,5) by auto
  have sp: "set (concat phase) \<subseteq> set (concat (concat (pre @ phase # post)))"
    by auto
  have spost: "set (concat (concat post)) \<subseteq> set (concat (concat (pre @ phase # post)))"
    by auto
  show ?case
  proof (intro conjI ballI)
    fix y assume "y \<in> set b"
    then have "y \<notin> set a'" "y \<notin> set b'" using later sb sp ih by blast+
    then show "y \<notin> set tr" using ab(1) by simp
  next
    fix y assume "y \<in> set (concat (concat post))"
    then have "y \<notin> set a'" "y \<notin> set b'" using later spost ih by blast+
    then show "y \<notin> set tr" using ab(1) by simp
  qed
qed

lemma entries_iff:
  "(t, d, fi) \<in> set (entries listing) \<longleftrightarrow>
     (\<exists>dates fs. (t, dates) \<in> set listing \<and> (d, fs) \<in> set dates \<and> fi \<in> set fs)"
  by (force simp: entries_def dateEntries_def)

lemma typePhase_tasks:
  "task \<in> set (typePhase e (t, dates)) \<longleftrightarrow>
     (\<exists>d fs. (d, fs) \<in> set dates \<and>
        task = createDirectoryIfNotExisting e (path_join (path_join (cwd e) (typeDirName t)) d) @
               map (\<lambda>fi. renameOf e (t, d, fi)) fs)"
  by (force simp: typePhase_def dateTask_def set_ownKeysOrder renameOf_def Let_def)

lemma mover_phases:
  "phase \<in> set (mover e listing) \<longleftrightarrow>
     phase = typeDirPhase e listing \<or> (\<exists>td\<in>set listing. phase = typePhase e td)"
  by (auto simp: mover_def set_ownKeysOrder)

lemma typeDirPhase_ops:
  "x \<in> set (concat (typeDirPhase e listing)) \<longleftrightarrow>
     (\<exists>t dates. (t, dates) \<in> set listing \<and> \<not> existsSync e (path_join (cwd e) (typeDirName t)) \<and>
        x = Mkdir (path_join (cwd e) (typeDirName t)))"
  by (force simp: typeDirPhase_def createDirectoryIfNotExisting_def set_ownKeysOrder
            split: if_splits)

lemma entry_is_planned:
  assumes "(t, d, fi) \<in> set (entries listing)"
  shows "\<exists>phase\<in>set (mover e listing). \<exists>task\<in>set phase. renameOf e (t, d, fi) \<in> set task"
proof -
  from assms obtain dates fs where
    m: "(t, dates) \<in> set listing" "(d, fs) \<in> set dates" "fi \<in> set fs"
    unfolding entries_iff by blast
  let ?task = "createDirectoryIfNotExisting e (path_join (path_join (cwd e) (typeDirName t)) d) @
               map (\<lambda>fi. renameOf e (t, d, fi)) fs"
  have "?task \<in> set (typePhase e (t, dates))" using m(2) typePhase_tasks by blast
  moreover have "typePhase e (t, dates) \<in> set (mover e listing)"
    using m(1) mover_phases by blast
  moreover have "renameOf e (t, d, fi) \<in> set ?task" using m(3) by simp
  ultimately show ?thesis by blast
qed

lemma filter_createDirectory:
  "filter (\<lambda>op. \<forall>p. op \<noteq> Mkdir p) (createDirectoryIfNotExisting e p) = []"
  by (simp add: createDirectoryIfNotExisting_def)

lemma filter_renames:
  "filter (\<lambda>op. \<forall>p. op \<noteq> Mkdir p) (map (\<lambda>fi. renameOf e (t, d, fi)) fs) =
     map (\<lambda>fi. renameOf e (t, d, fi)) fs"
  by (simp add: renameOf_def)

lemma typePhase_renames:
  "mset (filter (\<lambda>op. \<forall>p. op \<noteq> Mkdir p) (concat (typePhase e td))) =
     mset (map (renameOf e) (dateEntries (fst td) (snd td)))"
proof -
  let ?f = "\<lambda>df. map (\<lambda>fi. renameOf e (fst td, fst df, fi)) (snd df)"
  have "filter (\<lambda>op. \<forall>p. op \<noteq> Mkdir p) (concat (typePhase e td)) =
          concat (map ?f (ownKeysOrder (snd td)))"
    by (simp add: typePhase_def dateTask_def Let_def filter_concat comp_def
          filter_createDirectory renameOf_def)
  moreover have "mset (concat (map ?f (ownKeysOrder (snd td)))) = mset (concat (map ?f (snd td)))"
    by (rule mset_concat_map_cong) (rule mset_ownKeysOrder)
  moreover have "concat (map ?f (snd td)) = map (renameOf e) (dateEntries (fst td) (snd td))"
    by (simp add: dateEntries_def map_concat comp_def)
  ultimately show ?thesis by simp
qed

lemma concat_concat_map: "concat (concat (map f xs)) = concat (map (\<lambda>x. concat (f x)) xs)"
  by (induction xs) simp_all

lemma mover_renames:
  "mset (filter (\<lambda>op. \<forall>p. op \<noteq> Mkdir p) (concat (concat (mover e listing)))) =
     mset (map (renameOf e) (entries listing))"
proof -
  let ?P = "\<lambda>op. \<forall>p. op \<noteq> Mkdir p"
  have "\<forall>x\<in>set (concat (typeDirPhase e listing)). \<exists>p. x = Mkdir p"
    using typeDirPhase_ops by blast
  then have a: "filter ?P (concat (typeDirPhase e listing)) = []"
    unfolding filter_empty_conv by blast
  have "mset (filter ?P (concat (concat (map (typePhase e) (ownKeysOrder listing))))) =
        mset (concat (map (\<lambda>td. filter ?P (concat (typePhase e td))) (ownKeysOrder listing)))"
    by (simp add: filter_concat comp_def map_concat concat_concat_map)
  also have "\<dots> = mset (concat (map (\<lambda>td. filter ?P (concat (typePhase e td))) listing))"
    by (rule mset_concat_map_cong) (rule mset_ownKeysOrder)
  also have "\<dots> = mset (concat (map (\<lambda>td. map (renameOf e) (dateEntries (fst td) (snd td))) listing))"
    using typePhase_renames[of e] by (induction listing) simp_all
  also have "\<dots> = mset (map (renameOf e) (entries listing))"
    by (simp add: entries_def map_concat comp_def)
  finally show ?thesis using a by (simp add: mover_def)
qed

lemma verdictEntries_length:
  "\<forall>g\<in>set gs. groupDate e (snd g) \<noteq> None \<Longrightarrow>
   length (verdictEntries e gs) = length (concat (map snd gs))"
  by (induction gs) (auto simp: verdictEntries_def)

lemma verdictEntries_iff:
  "(t, d, fi) \<in> set (verdictEntries e gs) \<longleftrightarrow>
     (\<exists>k members dt. (k, members) \<in> set gs \<and> groupDate e members = Some dt \<and>
        t = groupType members \<and> d = dateString dt \<and> fi \<in> set members)"
  by (force simp: verdictEntries_def split: option.splits)


text \<open>
  What \<open>getFileInfo\<close> reads: for a MIME type other than \<open>image/jpeg\<close> and
  \<open>image/tiff\<close> its result does not depend on \<open>readFile\<close> and \<open>exif.parse\<close> and
  \<open>takenAt\<close> is \<open>null\<close>; for these two types, tags without \<open>DateTimeOriginal\<close>
  give a descriptor with \<open>takenAt = null\<close>.
\<close>

lemma getFileInfo_other_types:
  assumes "getType e p \<notin> set [Some ''image/jpeg'', Some ''image/tiff'']"
  shows "getFileInfo (e\<lparr> readFile := rf, exif_parse := ep \<rparr>) p = getFileInfo e p"
    and "getFileInfo e p = Inr fi \<Longrightarrow> takenAt fi = None"
  using assms by (auto simp: getFileInfo_def Let_def split: option.splits)

lemma getFileInfo_no_date_tag:
  assumes "getType e p \<in> set [Some ''image/jpeg'', Some ''image/tiff'']"
      and "stat e p = Some st" and "readFile e p = Some fileData"
      and "exif_parse e fileData = Tags None"
  shows "\<exists>fi. getFileInfo e p = Inr fi \<and> takenAt fi = None"
  using assms by (auto simp: getFileInfo_def Let_def)






section \<open>The claims\<close>

subsection \<open>C1: the date of a group\<close>

text \<open>
  Claim C1 says that the date of a group is the chronologically earliest of its
  members' dates (\<open>takenAt\<close> if present, else \<open>modifiedAt\<close>), and that a group with
  \<open>takenAt\<close> values 2023-05-01, \<open>null\<close> and \<open>modifiedAt\<close> values 2023-05-03,
  2023-04-20 gets 2023-04-20. The program sorts the \<open>Date\<close>s with \<open>sort()\<close>, that
  is by their text, which starts with the name of the day of the week. With UTC as local
  time, 2023-05-01 is a Monday and 2023-04-20 a Thursday, \<open>Mon\<close> comes before
  \<open>Thu\<close>, and the group of the claim gets 2023-05-01 (time values 1682899200000,
  1683072000000 and 1681948800000 are midnight UTC of 2023-05-01, 2023-05-03 and
  2023-04-20).
\<close>

theorem groupDate_sorts_by_text:
  "groupDate (e\<lparr> localTZA := (\<lambda>t. 0), tzName := (\<lambda>t. z) \<rparr>)
     [a\<lparr> takenAt := Some 1682899200000, modifiedAt := 1683072000000 \<rparr>,
      b\<lparr> takenAt := None, modifiedAt := 1681948800000 \<rparr>] = Some 1682899200000 \<and>
   dateString 1682899200000 = ''2023-05-01'' \<and>
   dateString 1681948800000 = ''2023-04-20'' \<and>
   dateString 1683072000000 = ''2023-05-03''"
proof (intro conjI)
  show "groupDate (e\<lparr> localTZA := (\<lambda>t. 0), tzName := (\<lambda>t. z) \<rparr>)
     [a\<lparr> takenAt := Some 1682899200000, modifiedAt := 1683072000000 \<rparr>,
      b\<lparr> takenAt := None, modifiedAt := 1681948800000 \<rparr>] = Some 1682899200000"
    apply (simp add: groupDate_def js_shift_def)
    apply code_simp
    done
qed code_simp+

subsection \<open>C2: the type of a group\<close>

text \<open>
  Claim C2: the type of a group is the type of its first member, in the order of the
  members, whose type is \<open>image\<close>, \<open>audio\<close> or \<open>video\<close>; it is \<open>other\<close> when there
  is no such member; members with the types \<open>other\<close>, \<open>video\<close>, \<open>image\<close> in this
  order give \<open>video\<close>.
\<close>

theorem groupType_first_match:
  "(\<forall>pre fi post.
      fileInfos = pre @ fi # post \<and>
      type fi \<in> {Some ''image'', Some ''audio'', Some ''video''} \<and>
      (\<forall>g\<in>set pre. type g \<notin> {Some ''image'', Some ''audio'', Some ''video''})
      \<longrightarrow> Some (groupType fileInfos) = type fi) \<and>
   ((\<forall>g\<in>set fileInfos. type g \<notin> {Some ''image'', Some ''audio'', Some ''video''})
      \<longrightarrow> groupType fileInfos = ''other'') \<and>
   groupType [a\<lparr> type := Some ''other'' \<rparr>, b\<lparr> type := Some ''video'' \<rparr>,
              c\<lparr> type := Some ''image'' \<rparr>] = ''video''"
proof (intro conjI allI impI)
  fix pre fi post
  assume h: "fileInfos = pre @ fi # post \<and>
      type fi \<in> {Some ''image'', Some ''audio'', Some ''video''} \<and>
      (\<forall>g\<in>set pre. type g \<notin> {Some ''image'', Some ''audio'', Some ''video''})"
  then have "filter (\<lambda>fi. type fi \<in> set [Some ''image'', Some ''audio'', Some ''video'']) pre = []"
    by (auto simp: filter_empty_conv)
  with h show "Some (groupType fileInfos) = type fi"
    by (auto simp: groupType_def js_shift_def)
next
  assume "\<forall>g\<in>set fileInfos. type g \<notin> {Some ''image'', Some ''audio'', Some ''video''}"
  then have "filter (\<lambda>fi. type fi \<in> set [Some ''image'', Some ''audio'', Some ''video'']) fileInfos = []"
    by (auto simp: filter_empty_conv)
  then show "groupType fileInfos = ''other''"
    by (simp add: groupType_def js_shift_def)
next
  show "groupType [a\<lparr> type := Some ''other'' \<rparr>, b\<lparr> type := Some ''video'' \<rparr>,
              c\<lparr> type := Some ''image'' \<rparr>] = ''video''"
    by (simp add: groupType_def js_shift_def)
qed

theorem groupType_first_match_witness:
  "groupType [sampleInfo ''n.txt'' (Some ''text/plain'') None 0,
              sampleInfo ''n.mp4'' (Some ''video/mp4'') None 0,
              sampleInfo ''n.jpg'' (Some ''image/jpeg'') None 0] = ''video'' \<and>
   groupType [sampleInfo ''n.txt'' (Some ''text/plain'') None 0,
              sampleInfo ''n'' None None 0] = ''other''"
proof -
  let ?t = "sampleInfo ''n.txt'' (Some ''text/plain'') None 0"
  let ?v = "sampleInfo ''n.mp4'' (Some ''video/mp4'') None 0"
  let ?i = "sampleInfo ''n.jpg'' (Some ''image/jpeg'') None 0"
  let ?n = "sampleInfo ''n'' None None 0"
  have t: "type ?t = Some ''text''" and v: "type ?v = Some ''video''" and n: "type ?n = None"
    by (simp_all add: sampleInfo_def js_shift_def)
  have h1: "[?t, ?v, ?i] = [?t] @ ?v # [?i] \<and>
      type ?v \<in> {Some ''image'', Some ''audio'', Some ''video''} \<and>
      (\<forall>g\<in>set [?t]. type g \<notin> {Some ''image'', Some ''audio'', Some ''video''})"
    by (simp add: t v)
  have h2: "\<forall>g\<in>set [?t, ?n]. type g \<notin> {Some ''image'', Some ''audio'', Some ''video''}"
    by (simp add: t n)
  have "Some (groupType [?t, ?v, ?i]) = type ?v"
    using groupType_first_match[THEN conjunct1, THEN spec, THEN spec, THEN spec, THEN mp, OF h1] .
  moreover have "groupType [?t, ?n] = ''other''"
    using groupType_first_match[THEN conjunct2, THEN conjunct1, THEN mp, OF h2] .
  ultimately show ?thesis by (simp add: v)
qed

subsection \<open>C3: one destination for the members of a group\<close>

text \<open>
  Claim C3, for a run with the command \<open>move\<close> that gets as far as the table. Every
  descriptor is a member of the group of its key. Every group has one date \<open>d\<close> and
  one type, and for each of its members the table has the row with the member's base
  name, that type and that date, and some task of the moving phases holds the call
  \<open>rename(path, CWD/TypeDirName/date/basename)\<close>, \<open>TypeDirName\<close> taken from the
  table \<open>typeDirNames\<close>. The moving phases hold as many \<open>rename\<close> calls as there are
  descriptors.
\<close>

theorem group_members_share_destination:
  assumes "main e sched (Some ''move'') = Fulfilled r"
  shows "(\<forall>fi\<in>set (infos r). \<exists>members.
            (propertyKey (name fi), members) \<in> set (groups r) \<and> fi \<in> set members) \<and>
         (\<forall>(k, members)\<in>set (groups r). \<exists>d. groupDate e members = Some d \<and>
            (\<forall>fi\<in>set members.
               \<lparr> File = basename fi, Class = groupType members, Date = dateString d \<rparr>
                 \<in> set (table r) \<and>
               (\<exists>phase\<in>set (moving r). \<exists>task\<in>set phase.
                  Rename (path fi)
                    (path_join
                       (path_join (path_join (cwd e) (typeDirName (groupType members)))
                          (dateString d))
                       (basename fi)) \<in> set task))) \<and>
         length (filter (\<lambda>op. \<forall>p. op \<noteq> Mkdir p) (concat (concat (moving r))))
           = length (infos r) \<and>
         typeDirName ''image'' = ''Image'' \<and> typeDirName ''video'' = ''Video'' \<and>
         typeDirName ''audio'' = ''Audio'' \<and> typeDirName ''other'' = ''Other''"
proof -
  from main_stages[OF assms] obtain baseFiles where
        g: "groupFiles (infos r) [] = Inr (groups r)"
    and pg: "processGroups e (ownKeysOrder (groups r)) ([], []) = Inr (plan r, table r)"
    and mv: "moving r = mover e (plan r)"
    by auto
  note gm = groupFiles_members[OF g, simplified]
  note pe = processGroups_entries[OF pg]
  let ?ve = "verdictEntries e (ownKeysOrder (groups r))"
  have ent: "mset (entries (plan r)) = mset ?ve" using pe by (simp add: entries_def)
  have rows: "table r = map (\<lambda>(t, d, fi). \<lparr> File = basename fi, Class = t, Date = d \<rparr>) ?ve"
    using pe by simp
  have dates: "\<forall>g\<in>set (groups r). groupDate e (snd g) \<noteq> None"
    using pe by (simp add: set_ownKeysOrder)
  have 1: "\<forall>fi\<in>set (infos r). \<exists>members.
            (propertyKey (name fi), members) \<in> set (groups r) \<and> fi \<in> set members"
    using gm by (meson map_of_SomeD)
  have 2: "\<exists>d. groupDate e members = Some d \<and>
            (\<forall>fi\<in>set members.
               \<lparr> File = basename fi, Class = groupType members, Date = dateString d \<rparr>
                 \<in> set (table r) \<and>
               (\<exists>phase\<in>set (moving r). \<exists>task\<in>set phase.
                  Rename (path fi)
                    (path_join
                       (path_join (path_join (cwd e) (typeDirName (groupType members)))
                          (dateString d))
                       (basename fi)) \<in> set task))"
    if km: "(k, members) \<in> set (groups r)" for k members
  proof -
    obtain d where d: "groupDate e members = Some d" using dates km by fastforce
    have "\<lparr> File = basename fi, Class = groupType members, Date = dateString d \<rparr> \<in> set (table r) \<and>
          (\<exists>phase\<in>set (moving r). \<exists>task\<in>set phase.
              renameOf e (groupType members, dateString d, fi) \<in> set task)"
      if fi: "fi \<in> set members" for fi
    proof -
      have v: "(groupType members, dateString d, fi) \<in> set ?ve"
        unfolding verdictEntries_iff set_ownKeysOrder using km d fi by blast
      then have "(groupType members, dateString d, fi) \<in> set (entries (plan r))"
        using ent by (metis set_mset_mset)
      then have "\<exists>phase\<in>set (moving r). \<exists>task\<in>set phase.
              renameOf e (groupType members, dateString d, fi) \<in> set task"
        unfolding mv by (rule entry_is_planned)
      moreover have "\<lparr> File = basename fi, Class = groupType members, Date = dateString d \<rparr>
           \<in> set (table r)"
        unfolding rows using v by force
      ultimately show ?thesis by blast
    qed
    then show ?thesis using d by (simp add: renameOf_def)
  qed
  have "length (filter (\<lambda>op. \<forall>p. op \<noteq> Mkdir p) (concat (concat (moving r))))
          = length (entries (plan r))"
    unfolding mv using mover_renames[of e "plan r"] by (metis length_map size_mset)
  also have "\<dots> = length ?ve" using ent by (metis size_mset)
  also have "\<dots> = length (concat (map snd (ownKeysOrder (groups r))))"
    using dates by (intro verdictEntries_length) (simp add: set_ownKeysOrder)
  also have "\<dots> = length (concat (map snd (groups r)))"
    using mset_concat_map_cong[OF mset_ownKeysOrder, of snd "groups r"] by (metis size_mset)
  also have "\<dots> = length (infos r)" using gm by (metis size_mset)
  finally have 3: "length (filter (\<lambda>op. \<forall>p. op \<noteq> Mkdir p) (concat (concat (moving r))))
          = length (infos r)" .
  have 4: "typeDirName ''image'' = ''Image'' \<and> typeDirName ''video'' = ''Video'' \<and>
         typeDirName ''audio'' = ''Audio'' \<and> typeDirName ''other'' = ''Other''"
    by (simp add: typeDirName_def typeDirNames_def)
  show ?thesis using 1 2 3 4 by blast
qed

theorem group_members_share_destination_witness:
  "map_outcome (\<lambda>r. map fst (groups r))
     (main (sampleEnv [''DSC0001.jpg'', ''DSC0001.dng'', ''b.mp4'']) [2, 0, 1] (Some ''move''))
     = Fulfilled [''DSC0001'', ''b''] \<and>
   map_outcome table
     (main (sampleEnv [''DSC0001.jpg'', ''DSC0001.dng'', ''b.mp4'']) [2, 0, 1] (Some ''move''))
     = Fulfilled [\<lparr> File = ''DSC0001.jpg'', Class = ''image'', Date = ''2023-05-03'' \<rparr>,
                  \<lparr> File = ''DSC0001.dng'', Class = ''image'', Date = ''2023-05-03'' \<rparr>,
                  \<lparr> File = ''b.mp4'', Class = ''video'', Date = ''2023-05-03'' \<rparr>] \<and>
   map_outcome moving
     (main (sampleEnv [''DSC0001.jpg'', ''DSC0001.dng'', ''b.mp4'']) [2, 0, 1] (Some ''move''))
     = Fulfilled
         [[[Mkdir ''/photos/Image''], [Mkdir ''/photos/Video'']],
          [[Mkdir ''/photos/Image/2023-05-03'',
            Rename ''/photos/DSC0001.jpg'' ''/photos/Image/2023-05-03/DSC0001.jpg'',
            Rename ''/photos/DSC0001.dng'' ''/photos/Image/2023-05-03/DSC0001.dng'']],
          [[Mkdir ''/photos/Video/2023-05-03'',
            Rename ''/photos/b.mp4'' ''/photos/Video/2023-05-03/b.mp4'']]] \<and>
   map_outcome (\<lambda>r. length (filter (\<lambda>op. \<forall>p. op \<noteq> Mkdir p) (concat (concat (moving r)))))
     (main (sampleEnv [''DSC0001.jpg'', ''DSC0001.dng'', ''b.mp4'']) [2, 0, 1] (Some ''move''))
     = Fulfilled 3"
proof -
  let ?e = "sampleEnv [''DSC0001.jpg'', ''DSC0001.dng'', ''b.mp4'']"
  let ?t = "[\<lparr> File = ''DSC0001.jpg'', Class = ''image'', Date = ''2023-05-03'' \<rparr>,
             \<lparr> File = ''DSC0001.dng'', Class = ''image'', Date = ''2023-05-03'' \<rparr>,
             \<lparr> File = ''b.mp4'', Class = ''video'', Date = ''2023-05-03'' \<rparr>]"
  let ?m = "[[[Mkdir ''/photos/Image''], [Mkdir ''/photos/Video'']],
          [[Mkdir ''/photos/Image/2023-05-03'',
            Rename ''/photos/DSC0001.jpg'' ''/photos/Image/2023-05-03/DSC0001.jpg'',
            Rename ''/photos/DSC0001.dng'' ''/photos/Image/2023-05-03/DSC0001.dng'']],
          [[Mkdir ''/photos/Video/2023-05-03'',
            Rename ''/photos/b.mp4'' ''/photos/Video/2023-05-03/b.mp4'']]]"
  obtain r where m: "main ?e [2, 0, 1] (Some ''move'') = Fulfilled r"
    and g: "map fst (groups r) = [''DSC0001'', ''b'']"
    and t: "table r = ?t" and mv: "moving r = ?m" and i: "length (infos r) = 3"
  proof -
    have "case main ?e [2, 0, 1] (Some ''move'') of
            Fulfilled r \<Rightarrow> map fst (groups r) = [''DSC0001'', ''b''] \<and> table r = ?t \<and>
                           moving r = ?m \<and> length (infos r) = 3
          | _ \<Rightarrow> False"
      by code_simp
    then show ?thesis using that by (auto split: outcome.splits)
  qed
  have "length (filter (\<lambda>op. \<forall>p. op \<noteq> Mkdir p) (concat (concat (moving r)))) = 3"
    using group_members_share_destination[OF m] i by simp
  then show ?thesis unfolding m by (simp add: g t mv)
qed

subsection \<open>C4: group key and extension\<close>

text \<open>
  Claim C4 says that the group key is the part of the base name before the first dot,
  the extension the part after the last dot, and that a base name without a dot has the
  empty string as its extension. For a name without a dot the array is empty after
  \<open>shift\<close>, \<open>pop\<close> returns \<open>undefined\<close>, and the descriptor's \<open>extension\<close> is
  \<open>undefined\<close>, not the empty string (which is the extension of a name that ends in a
  dot). Counterexample: \<open>README\<close>.
\<close>

theorem getFileInfo_no_dot_extension:
  "CHR ''.'' \<notin> set ''README'' \<and>
   map_sum id name (getFileInfo (sampleEnv [''README'']) ''/photos/README'') = Inr (Some ''README'') \<and>
   map_sum id extension (getFileInfo (sampleEnv [''README'']) ''/photos/README'') = Inr None \<and>
   map_sum id extension (getFileInfo (sampleEnv [''README'']) ''/photos/README'') \<noteq> Inr (Some [])"
  by code_simp

text \<open>
  C4 as amended: \<open>name\<close> is the part of the base name before its first dot (the whole
  name when there is none); \<open>extension\<close> is the part after the last dot when there is a
  dot and \<open>undefined\<close> when there is none; the base names \<open>DSC0001.jpg\<close>,
  \<open>DSC0001.dng\<close> and \<open>DSC0001.edited.jpg\<close> all give the name \<open>DSC0001\<close>, and
  \<open>a.b\<close> gives the name \<open>a\<close> and the extension \<open>b\<close>.
\<close>

theorem getFileInfo_name_extension:
  assumes "getFileInfo e filePath = Inr fi"
  shows "name fi = Some (takeWhile (\<lambda>c. c \<noteq> CHR ''.'') (path_basename filePath)) \<and>
         extension fi =
           (if CHR ''.'' \<in> set (path_basename filePath)
            then Some (rev (takeWhile (\<lambda>c. c \<noteq> CHR ''.'') (rev (path_basename filePath))))
            else None) \<and>
         (path_basename filePath \<in> {''DSC0001.jpg'', ''DSC0001.dng'', ''DSC0001.edited.jpg''}
            \<longrightarrow> name fi = Some ''DSC0001'') \<and>
         (path_basename filePath = ''a.b'' \<longrightarrow> name fi = Some ''a'' \<and> extension fi = Some ''b'')"
  using getFileInfo_fields(1,2)[OF assms] by auto

theorem getFileInfo_name_extension_witness:
  "getFileInfo (sampleEnv [''DSC0001.edited.jpg'']) ''/photos/DSC0001.edited.jpg'' =
     Inr (sampleInfo ''DSC0001.edited.jpg'' (Some ''image/jpeg'') None 1683072000000) \<and>
   path_basename ''/photos/DSC0001.edited.jpg'' = ''DSC0001.edited.jpg'' \<and>
   name (sampleInfo ''DSC0001.edited.jpg'' (Some ''image/jpeg'') None 1683072000000) = Some ''DSC0001'' \<and>
   extension (sampleInfo ''DSC0001.edited.jpg'' (Some ''image/jpeg'') None 1683072000000) = Some ''jpg''"
proof -
  have h: "getFileInfo (sampleEnv [''DSC0001.edited.jpg'']) ''/photos/DSC0001.edited.jpg'' =
     Inr (sampleInfo ''DSC0001.edited.jpg'' (Some ''image/jpeg'') None 1683072000000)"
    by code_simp
  have b: "path_basename ''/photos/DSC0001.edited.jpg'' = ''DSC0001.edited.jpg''"
    by code_simp
  show ?thesis using getFileInfo_name_extension[OF h] h b by simp
qed

subsection \<open>C5: names are not empty\<close>

text \<open>
  Claim C5 says that the group key and the base name of every descriptor are non-empty,
  also for names such as \<open>.gitignore\<close>. \<open>isValidFile\<close> lets \<open>.gitignore\<close> pass, and
  its first segment, the group key, is the empty string.
\<close>

theorem dotfile_has_empty_name:
  "isValidFile (sampleEnv [''.gitignore'']) ''/photos/.gitignore'' = Inr True \<and>
   map_outcome (\<lambda>r. map name (infos r)) (main (sampleEnv [''.gitignore'']) [0] None)
     = Fulfilled [Some []] \<and>
   map_outcome (\<lambda>r. map basename (infos r)) (main (sampleEnv [''.gitignore'']) [0] None)
     = Fulfilled [''.gitignore'']"
  by code_simp

text \<open>
  C5 as amended: when the directory's entries are names (non-empty, without a slash),
  every descriptor of a run has the non-empty name of an entry as its base name, and its
  group key is the part of the base name before the first dot, which is empty exactly
  when the base name begins with a dot.
\<close>

theorem descriptor_names:
  assumes "main e sched command = Fulfilled r"
      and "readdir e = Inr fileNames"
      and "\<forall>n\<in>set fileNames. n \<noteq> [] \<and> CHR ''/'' \<notin> set n"
      and "fi \<in> set (infos r)"
  shows "basename fi \<in> set fileNames \<and> basename fi \<noteq> [] \<and>
         path fi = path_join (cwd e) (basename fi) \<and>
         name fi = Some (takeWhile (\<lambda>c. c \<noteq> CHR ''.'') (basename fi)) \<and>
         (name fi = Some [] \<longleftrightarrow> hd (basename fi) = CHR ''.'')"
proof -
  obtain baseFiles where s: "scan e = Inr baseFiles"
    and p: "promise_all sched (map (getFileInfo e) baseFiles) = Fulfilled (infos r)"
    using main_stages[OF assms(1)] by blast
  have "map (getFileInfo e) baseFiles = map Inr (infos r)"
    using promise_all_fulfilled[OF p] .
  then obtain filePath where f: "filePath \<in> set baseFiles" "getFileInfo e filePath = Inr fi"
    using assms(4)
    by (metis (no_types, lifting) in_set_conv_nth length_map nth_map)
  obtain n where n: "n \<in> set fileNames" "filePath = path_join (cwd e) n"
    using scan_entries[OF s assms(2)] f(1) by blast
  have b: "basename fi = n"
    using getFileInfo_fields(3)[OF f(2)] n assms(3) by (simp add: path_basename_join)
  have ne: "n \<noteq> []" using n assms(3) by blast
  have "takeWhile (\<lambda>c. c \<noteq> CHR ''.'') n = [] \<longleftrightarrow> hd n = CHR ''.''"
    using ne by (cases n) auto
  then show ?thesis
    using getFileInfo_fields(1,3,4)[OF f(2)] b n ne by auto
qed

theorem descriptor_names_witness:
  "main (sampleEnv [''a.jpg'', ''.gitignore'']) [1, 0] None \<noteq> Pending \<and>
   map_outcome (\<lambda>r. map basename (infos r)) (main (sampleEnv [''a.jpg'', ''.gitignore'']) [1, 0] None)
     = Fulfilled [''a.jpg'', ''.gitignore''] \<and>
   name (sampleInfo ''a.jpg'' (Some ''image/jpeg'') None 1683072000000) = Some ''a'' \<and>
   name (sampleInfo ''.gitignore'' None None 1683072000000) = Some []"
proof -
  let ?e = "sampleEnv [''a.jpg'', ''.gitignore'']"
  obtain r where m: "main ?e [1, 0] None = Fulfilled r"
    and i: "infos r = [sampleInfo ''a.jpg'' (Some ''image/jpeg'') None 1683072000000,
                       sampleInfo ''.gitignore'' None None 1683072000000]"
  proof -
    have "case main ?e [1, 0] None of Fulfilled r \<Rightarrow>
              infos r = [sampleInfo ''a.jpg'' (Some ''image/jpeg'') None 1683072000000,
                       sampleInfo ''.gitignore'' None None 1683072000000] | _ \<Rightarrow> False"
      by code_simp
    then show ?thesis using that by (auto split: outcome.splits)
  qed
  have rd: "readdir ?e = Inr [''a.jpg'', ''.gitignore'']" by (simp add: sampleEnv_def)
  have v: "\<forall>n\<in>set [''a.jpg'', ''.gitignore'']. n \<noteq> [] \<and> CHR ''/'' \<notin> set n" by simp
  have a: "sampleInfo ''a.jpg'' (Some ''image/jpeg'') None 1683072000000 \<in> set (infos r)"
    and g: "sampleInfo ''.gitignore'' None None 1683072000000 \<in> set (infos r)"
    by (simp_all add: i)
  have ba: "basename (sampleInfo ''a.jpg'' (Some ''image/jpeg'') None 1683072000000) = ''a.jpg''"
    and bg: "basename (sampleInfo ''.gitignore'' None None 1683072000000) = ''.gitignore''"
    by (simp_all add: sampleInfo_def)
  show ?thesis
    using descriptor_names[OF m rd v a] descriptor_names[OF m rd v g] m i ba bg
    by simp
qed

subsection \<open>C6: reading the metadata\<close>

text \<open>
  Claim C6 says that a JPEG or TIFF file for which the metadata reader yields nothing
  still gets a descriptor, with \<open>takenAt = null\<close>. When \<open>exif.parse\<close> resolves to
  \<open>undefined\<close>, \<open>exifData.DateTimeOriginal\<close> throws and \<open>getFileInfo\<close> rejects with
  a \<open>TypeError\<close>; when it resolves to tags without a \<open>DateTimeOriginal\<close>, \<open>takenAt\<close>
  is \<open>null\<close>.
\<close>

theorem getFileInfo_undefined_metadata:
  "getFileInfo ((sampleEnv [''a.jpg'']) \<lparr> exif_parse := (\<lambda>data. Undefined) \<rparr>) ''/photos/a.jpg''
     = Inl TypeError \<and>
   map_sum id takenAt (getFileInfo (sampleEnv [''a.jpg'']) ''/photos/a.jpg'') = Inr None"
  by code_simp

subsection \<open>C7: a rename that fails\<close>

text \<open>
  Claim C7 says that after a failed \<open>rename\<close> the remaining files are still attempted
  and the failures are collected. The \<open>for\<close> loop of a date directory awaits each
  \<open>rename\<close> without catching anything: the rejection ends the loop, rejects the
  \<open>Promise.all\<close> and ends \<open>main\<close>. Counterexample: \<open>a.jpg\<close> and \<open>b.jpg\<close> go to
  the same directory; when the \<open>rename\<close> of \<open>a.jpg\<close> fails, the execution ends there
  and \<open>b.jpg\<close>, which is planned, is never attempted.
\<close>

theorem failed_rename_ends_the_moving:
  "map_outcome
     (\<lambda>r. exec (\<lambda>op. op \<noteq> Rename ''/photos/a.jpg'' ''/photos/Image/2023-05-03/a.jpg'') (moving r)
        [Mkdir ''/photos/Image'', Mkdir ''/photos/Image/2023-05-03'',
         Rename ''/photos/a.jpg'' ''/photos/Image/2023-05-03/a.jpg''])
     (main (sampleEnv [''a.jpg'', ''b.jpg'']) [0, 1] (Some ''move'')) = Fulfilled True \<and>
   map_outcome
     (\<lambda>r. Rename ''/photos/b.jpg'' ''/photos/Image/2023-05-03/b.jpg''
            \<in> set (concat (concat (moving r))))
     (main (sampleEnv [''a.jpg'', ''b.jpg'']) [0, 1] (Some ''move'')) = Fulfilled True \<and>
   Rename ''/photos/b.jpg'' ''/photos/Image/2023-05-03/b.jpg''
     \<notin> set [Mkdir ''/photos/Image'', Mkdir ''/photos/Image/2023-05-03'',
              Rename ''/photos/a.jpg'' ''/photos/Image/2023-05-03/a.jpg''] \<and>
   map_outcome
     (\<lambda>r. exec (\<lambda>op. op \<noteq> Rename ''/photos/a.jpg'' ''/photos/Image/2023-05-03/a.jpg'') (moving r)
        [Mkdir ''/photos/Image'', Mkdir ''/photos/Image/2023-05-03'',
         Rename ''/photos/a.jpg'' ''/photos/Image/2023-05-03/a.jpg'',
         Rename ''/photos/b.jpg'' ''/photos/Image/2023-05-03/b.jpg''])
     (main (sampleEnv [''a.jpg'', ''b.jpg'']) [0, 1] (Some ''move'')) = Fulfilled False"
  by code_simp

text \<open>
  C7 as amended: when the \<open>rename\<close> of a file fails, no file after it in the same date
  directory is renamed, and no call of a later phase (the types that come later) is
  made. The calls of the moving phases are taken to be pairwise distinct, as they are when
  the files have distinct paths. Date directories of the same type run concurrently and
  are not covered; a process that ends at the rejection can only cut an execution short.
\<close>

theorem failed_rename_stops_directory:
  assumes "main e sched (Some ''move'') = Fulfilled r"
      and "exec ok (moving r) tr"
      and "distinct (concat (concat (moving r)))"
      and "(t, dates) \<in> set (plan r)"
      and "(d, before @ fi # after) \<in> set dates"
      and "\<not> ok (Rename (path fi)
                (path_join (path_join (path_join (cwd e) (typeDirName t)) d) (basename fi)))"
  shows "(\<forall>fj\<in>set after.
            Rename (path fj)
              (path_join (path_join (path_join (cwd e) (typeDirName t)) d) (basename fj))
              \<notin> set tr) \<and>
         (\<exists>pre post. moving r = pre @ typePhase e (t, dates) # post \<and>
            (\<forall>x\<in>set (concat (concat post)). x \<notin> set tr))"
proof -
  from main_stages[OF assms(1)] have mv: "moving r = mover e (plan r)" by auto
  have "typePhase e (t, dates) \<in> set (moving r)"
    unfolding mv mover_phases using assms(4) by blast
  then obtain pre post where pp: "moving r = pre @ typePhase e (t, dates) # post"
    by (meson split_list)
  let ?dd = "path_join (path_join (cwd e) (typeDirName t)) d"
  let ?task = "createDirectoryIfNotExisting e ?dd @
               map (\<lambda>fi. renameOf e (t, d, fi)) (before @ fi # after)"
  have tin: "?task \<in> set (typePhase e (t, dates))"
    unfolding typePhase_tasks using assms(5) by blast
  have teq: "?task = (createDirectoryIfNotExisting e ?dd @ map (\<lambda>fi. renameOf e (t, d, fi)) before)
                @ renameOf e (t, d, fi) # map (\<lambda>fi. renameOf e (t, d, fi)) after"
    by simp
  have nok: "\<not> ok (renameOf e (t, d, fi))" using assms(6) by (simp add: renameOf_def)
  from exec_failed_task[OF assms(2,3) pp tin teq nok]
  have "(\<forall>y\<in>set (map (\<lambda>fi. renameOf e (t, d, fi)) after). y \<notin> set tr) \<and>
        (\<forall>y\<in>set (concat (concat post)). y \<notin> set tr)" .
  then show ?thesis using pp by (auto simp: renameOf_def)
qed

theorem failed_rename_stops_directory_witness:
  "map_outcome moving (main (sampleEnv [''a.jpg'', ''b.jpg'', ''c.mp4'']) [0, 1, 2] (Some ''move'')) =
     Fulfilled [[[Mkdir ''/photos/Image''], [Mkdir ''/photos/Video'']],
                [[Mkdir ''/photos/Image/2023-05-03'',
                  Rename ''/photos/a.jpg'' ''/photos/Image/2023-05-03/a.jpg'',
                  Rename ''/photos/b.jpg'' ''/photos/Image/2023-05-03/b.jpg'']],
                [[Mkdir ''/photos/Video/2023-05-03'',
                  Rename ''/photos/c.mp4'' ''/photos/Video/2023-05-03/c.mp4'']]] \<and>
   exec (\<lambda>op. op \<noteq> Rename ''/photos/a.jpg'' ''/photos/Image/2023-05-03/a.jpg'')
     [[[Mkdir ''/photos/Image''], [Mkdir ''/photos/Video'']],
      [[Mkdir ''/photos/Image/2023-05-03'',
        Rename ''/photos/a.jpg'' ''/photos/Image/2023-05-03/a.jpg'',
        Rename ''/photos/b.jpg'' ''/photos/Image/2023-05-03/b.jpg'']],
      [[Mkdir ''/photos/Video/2023-05-03'',
        Rename ''/photos/c.mp4'' ''/photos/Video/2023-05-03/c.mp4'']]]
     [Mkdir ''/photos/Image'', Mkdir ''/photos/Video'', Mkdir ''/photos/Image/2023-05-03'',
      Rename ''/photos/a.jpg'' ''/photos/Image/2023-05-03/a.jpg''] \<and>
   Rename ''/photos/b.jpg'' ''/photos/Image/2023-05-03/b.jpg''
     \<notin> set [Mkdir ''/photos/Image'', Mkdir ''/photos/Video'', Mkdir ''/photos/Image/2023-05-03'',
              Rename ''/photos/a.jpg'' ''/photos/Image/2023-05-03/a.jpg'']"
proof -
  let ?e = "sampleEnv [''a.jpg'', ''b.jpg'', ''c.mp4'']"
  let ?a = "sampleInfo ''a.jpg'' (Some ''image/jpeg'') None 1683072000000"
  let ?b = "sampleInfo ''b.jpg'' (Some ''image/jpeg'') None 1683072000000"
  let ?c = "sampleInfo ''c.mp4'' (Some ''video/mp4'') None 1683072000000"
  let ?p = "[(''image'', [(''2023-05-03'', [?a, ?b])]), (''video'', [(''2023-05-03'', [?c])])]"
  let ?m = "[[[Mkdir ''/photos/Image''], [Mkdir ''/photos/Video'']],
                [[Mkdir ''/photos/Image/2023-05-03'',
                  Rename ''/photos/a.jpg'' ''/photos/Image/2023-05-03/a.jpg'',
                  Rename ''/photos/b.jpg'' ''/photos/Image/2023-05-03/b.jpg'']],
                [[Mkdir ''/photos/Video/2023-05-03'',
                  Rename ''/photos/c.mp4'' ''/photos/Video/2023-05-03/c.mp4'']]]"
  let ?tr = "[Mkdir ''/photos/Image'', Mkdir ''/photos/Video'', Mkdir ''/photos/Image/2023-05-03'',
      Rename ''/photos/a.jpg'' ''/photos/Image/2023-05-03/a.jpg'']"
  let ?ok = "\<lambda>op. op \<noteq> Rename ''/photos/a.jpg'' ''/photos/Image/2023-05-03/a.jpg''"
  obtain r where m: "main ?e [0, 1, 2] (Some ''move'') = Fulfilled r"
    and p: "plan r = ?p" and mv: "moving r = ?m"
  proof -
    have "case main ?e [0, 1, 2] (Some ''move'') of
            Fulfilled r \<Rightarrow> plan r = ?p \<and> moving r = ?m
          | _ \<Rightarrow> False"
      by code_simp
    then show ?thesis using that by (auto split: outcome.splits)
  qed
  have ex: "exec ?ok ?m ?tr" by code_simp
  have ex': "exec ?ok (moving r) ?tr" unfolding mv by (rule ex)
  have d: "distinct (concat (concat (moving r)))" unfolding mv by simp
  have t: "(''image'', [(''2023-05-03'', [?a, ?b])]) \<in> set (plan r)" unfolding p by simp
  have f: "(''2023-05-03'', [] @ ?a # [?b]) \<in> set [(''2023-05-03'', [?a, ?b])]" by simp
  have ra: "Rename (path ?a)
              (path_join (path_join (path_join (cwd ?e) (typeDirName ''image'')) ''2023-05-03'')
                 (basename ?a)) = Rename ''/photos/a.jpg'' ''/photos/Image/2023-05-03/a.jpg''"
    by code_simp
  have rb: "Rename (path ?b)
              (path_join (path_join (path_join (cwd ?e) (typeDirName ''image'')) ''2023-05-03'')
                 (basename ?b)) = Rename ''/photos/b.jpg'' ''/photos/Image/2023-05-03/b.jpg''"
    by code_simp
  have nok: "\<not> ?ok (Rename (path ?a)
              (path_join (path_join (path_join (cwd ?e) (typeDirName ''image'')) ''2023-05-03'')
                 (basename ?a)))"
    unfolding ra by simp
  from failed_rename_stops_directory[OF m ex' d t f nok, THEN conjunct1]
  have "Rename ''/photos/b.jpg'' ''/photos/Image/2023-05-03/b.jpg'' \<notin> set ?tr"
    unfolding rb[symmetric] by simp
  then show ?thesis unfolding m using mv ex by simp
qed

subsection \<open>C8: directories and renames\<close>




subsection \<open>C9: without the command \<open>move\<close>\<close>

text \<open>
  Claim C9: a run without the command \<open>move\<close> that gets as far as the table makes no
  file-system call after it: there is no moving phase, so the only execution is the empty
  one, without \<open>mkdir\<close> and without \<open>rename\<close>. The directory is as it was, so a
  second such run (whatever the order in which the extractions settle) returns the same
  descriptors, groups, plan and table; a run with \<open>move\<close> prints the same table from
  the same plan.
\<close>

theorem preview_moves_nothing:
  assumes "command \<noteq> Some ''move''"
      and "main e sched command = Fulfilled r"
  shows "moving r = [] \<and>
         (\<forall>ok tr. exec ok (moving r) tr \<longleftrightarrow> tr = []) \<and>
         (\<forall>sched' command' r'.
            command' \<noteq> Some ''move'' \<and> main e sched' command' = Fulfilled r' \<longrightarrow> r' = r) \<and>
         (\<forall>sched' r'. main e sched' (Some ''move'') = Fulfilled r' \<longrightarrow>
            table r' = table r \<and> plan r' = plan r)"
proof -
  from main_stages[OF assms(2)] obtain baseFiles where s: "scan e = Inr baseFiles"
    and p: "promise_all sched (map (getFileInfo e) baseFiles) = Fulfilled (infos r)"
    and g: "groupFiles (infos r) [] = Inr (groups r)"
    and pg: "processGroups e (ownKeysOrder (groups r)) ([], []) = Inr (plan r, table r)"
    and mv0: "moving r = (if command \<noteq> Some ''move'' then [] else mover e (plan r))"
    by blast
  have mv: "moving r = []" using mv0 assms(1) by simp
  have same: "infos r' = infos r \<and> groups r' = groups r \<and> plan r' = plan r \<and> table r' = table r"
    if "main e sched' command' = Fulfilled r'" for sched' command' r'
  proof -
    from main_stages[OF that] obtain bf' where s': "scan e = Inr bf'"
      and p': "promise_all sched' (map (getFileInfo e) bf') = Fulfilled (infos r')"
      and g': "groupFiles (infos r') [] = Inr (groups r')"
      and pg': "processGroups e (ownKeysOrder (groups r')) ([], []) = Inr (plan r', table r')"
      by blast
    have "map Inr (infos r') = (map Inr (infos r) :: (error + fileInfo) list)"
      using promise_all_fulfilled[OF p] promise_all_fulfilled[OF p'] s s' by simp
    then have "infos r' = infos r" by (simp add: inj_map_eq_map)
    then show ?thesis using g g' pg pg' by simp
  qed
  have "r' = r" if "command' \<noteq> Some ''move''" "main e sched' command' = Fulfilled r'"
    for sched' command' r'
  proof -
    have "moving r' = []" using main_stages[OF that(2)] that(1) by auto
    then show ?thesis using same[OF that(2)] mv by simp
  qed
  then show ?thesis using mv same by auto
qed

theorem preview_moves_nothing_witness:
  "(None :: string option) \<noteq> Some ''move'' \<and>
   map_outcome moving (main (sampleEnv [''a.jpg'', ''b.mp4'']) [0, 1] None) = Fulfilled [] \<and>
   map_outcome table (main (sampleEnv [''a.jpg'', ''b.mp4'']) [0, 1] None) =
     Fulfilled [\<lparr> File = ''a.jpg'', Class = ''image'', Date = ''2023-05-03'' \<rparr>,
                \<lparr> File = ''b.mp4'', Class = ''video'', Date = ''2023-05-03'' \<rparr>] \<and>
   map_outcome table (main (sampleEnv [''a.jpg'', ''b.mp4'']) [1, 0] (Some ''preview'')) =
     Fulfilled [\<lparr> File = ''a.jpg'', Class = ''image'', Date = ''2023-05-03'' \<rparr>,
                \<lparr> File = ''b.mp4'', Class = ''video'', Date = ''2023-05-03'' \<rparr>]"
proof -
  let ?e = "sampleEnv [''a.jpg'', ''b.mp4'']"
  let ?t = "[\<lparr> File = ''a.jpg'', Class = ''image'', Date = ''2023-05-03'' \<rparr>,
             \<lparr> File = ''b.mp4'', Class = ''video'', Date = ''2023-05-03'' \<rparr>]"
  obtain r where m: "main ?e [0, 1] None = Fulfilled r" and t: "table r = ?t"
  proof -
    have "case main ?e [0, 1] None of Fulfilled r \<Rightarrow> table r = ?t | _ \<Rightarrow> False"
      by code_simp
    then show ?thesis using that by (auto split: outcome.splits)
  qed
  obtain r' where m': "main ?e [1, 0] (Some ''preview'') = Fulfilled r'"
  proof -
    have "case main ?e [1, 0] (Some ''preview'') of Fulfilled r \<Rightarrow> True | _ \<Rightarrow> False"
      by code_simp
    then show ?thesis using that by (auto split: outcome.splits)
  qed
  have n: "(None :: string option) \<noteq> Some ''move''" by simp
  have n': "Some ''preview'' \<noteq> Some ''move''" by simp
  note w = preview_moves_nothing[OF n m]
  have mv: "moving r = []" using w[THEN conjunct1] .
  have "r' = r"
    using w[THEN conjunct2, THEN conjunct2, THEN conjunct1, THEN spec, THEN spec, THEN spec,
            THEN mp, OF conjI[OF n' m']] .
  then have m'': "main ?e [1, 0] (Some ''preview'') = Fulfilled r" using m' by simp
  show ?thesis unfolding m m'' by (simp add: mv t)
qed

subsection \<open>C10: the order in which the extractions settle\<close>




end
